theory Spec2Isabelle
  imports Main "HOL-Library.Multiset"
begin

section \<open>Event dispatch (robotcode/utils/async_event.py)\<close>

text \<open>
  A listener is identified by the callable it refers to (for a bound method, the pair of
  object and function): two weak references to the same live callable are equal, which is
  what \<open>set.add\<close> and \<open>set.remove\<close> compare. The registry \<open>self.listeners\<close> is
  a set of weak references, modelled as the set of their referents. The lock only
  serialises \<open>add\<close> and \<open>remove\<close> and is not modelled.
\<close>

datatype py_error = KeyError | TypeError | IndexError | AttributeError | FileNotFoundError

record 'l event =
  listeners :: "'l set"

definition new_event :: "'l event" where
  "new_event = \<lparr>listeners = {}\<rparr>"

definition add :: "'l \<Rightarrow> 'l event \<Rightarrow> 'l event" where
  "add callback self = self\<lparr>listeners := insert callback (listeners self)\<rparr>"

text \<open>\<open>set.remove\<close> raises \<open>KeyError\<close> when the element is not in the set.\<close>

definition set_remove :: "'l \<Rightarrow> 'l set \<Rightarrow> py_error + 'l set" where
  "set_remove x s = (if x \<in> s then Inr (s - {x}) else Inl KeyError)"

definition remove :: "'l \<Rightarrow> 'l event \<Rightarrow> py_error + 'l event" where
  "remove callback self =
     (case set_remove callback (listeners self) of
        Inl e \<Rightarrow> Inl e
      | Inr s \<Rightarrow> Inr (self\<lparr>listeners := s\<rparr>))"

text \<open>
  \<open>remove_listener\<close> is the callback that \<open>add\<close> attaches to the weak reference; the
  runtime calls it when the referent is finalised.
\<close>

definition remove_listener :: "'l \<Rightarrow> 'l event \<Rightarrow> py_error + 'l event" where
  "remove_listener ref self =
     (case set_remove ref (listeners self) of
        Inl e \<Rightarrow> Inl e
      | Inr s \<Rightarrow> Inr (self\<lparr>listeners := s\<rparr>))"

text \<open>Calling a weak reference gives the referent, or \<open>None\<close> once it has expired.\<close>

definition deref :: "('l \<Rightarrow> bool) \<Rightarrow> 'l \<Rightarrow> 'l option" where
  "deref alive method_listener = (if alive method_listener then Some method_listener else None)"

text \<open>
  The direct strategy. \<open>its\<close> is the order in which the \<open>for\<close> loop meets the elements of
  the set (Python leaves it unspecified). Every yielded result is paired with the
  listener that was invoked to produce it, so that the model records who was called.
\<close>

fun notify :: "('l \<Rightarrow> bool) \<Rightarrow> ('l \<Rightarrow> 'a \<Rightarrow> 'r) \<Rightarrow> 'l list \<Rightarrow> 'a \<Rightarrow> ('l \<times> 'r) list" where
  "notify alive call [] args = []"
| "notify alive call (method_listener # its) args =
     (case deref alive method_listener of
        None \<Rightarrow> notify alive call its args
      | Some method \<Rightarrow> (method, call method args) # notify alive call its args)"

definition AsyncEvent_call :: "('l \<Rightarrow> bool) \<Rightarrow> ('l \<Rightarrow> 'a \<Rightarrow> 'r) \<Rightarrow> 'l list \<Rightarrow> 'a \<Rightarrow> 'r list" where
  "AsyncEvent_call alive call its args = map snd (notify alive call its args)"

subsection \<open>Concurrent strategies\<close>

text \<open>
  A listener run as a task ends in a future that either holds a value or an exception.
  \<open>as_completed\<close> hands the futures back in completion order; the model takes that
  order as a function on the list of futures. The optional \<open>result_callback\<close>, the
  names given to tasks and threads, and the executor of the threading strategy do not
  touch what is yielded and are left out.
\<close>

datatype ('r, 'e) outcome = Returned 'r | Raised 'e

type_synonym ('l, 'r, 'e) future = "'l \<times> ('r, 'e) outcome"

fun awaitables :: "('l \<Rightarrow> bool) \<Rightarrow> ('l \<Rightarrow> 'a \<Rightarrow> ('r, 'e) outcome) \<Rightarrow> 'l list \<Rightarrow> 'a \<Rightarrow> ('l, 'r, 'e) future list" where
  "awaitables alive run [] args = []"
| "awaitables alive run (method_listener # its) args =
     (case deref alive method_listener of
        None \<Rightarrow> awaitables alive run its args
      | Some method \<Rightarrow> (method, run method args) # awaitables alive run its args)"

text \<open>
  The loop over \<open>as_completed\<close>: a value is yielded; an exception is yielded as an entry
  (\<open>Inl\<close>) only when \<open>ignore_exceptions\<close> is false.
\<close>

fun yield_completed :: "bool \<Rightarrow> ('l, 'r, 'e) future list \<Rightarrow> ('e + 'r) list" where
  "yield_completed ignore_exceptions [] = []"
| "yield_completed ignore_exceptions ((m, Returned r) # fs) = Inr r # yield_completed ignore_exceptions fs"
| "yield_completed ignore_exceptions ((m, Raised e) # fs) =
     (if \<not> ignore_exceptions then Inl e # yield_completed ignore_exceptions fs
      else yield_completed ignore_exceptions fs)"

definition tasking_notify ::
  "('l \<Rightarrow> bool) \<Rightarrow> ('l \<Rightarrow> 'a \<Rightarrow> ('r, 'e) outcome) \<Rightarrow>
   (('l, 'r, 'e) future list \<Rightarrow> ('l, 'r, 'e) future list) \<Rightarrow> 'l list \<Rightarrow> bool \<Rightarrow> 'a \<Rightarrow> ('e + 'r) list" where
  "tasking_notify alive run as_completed its ignore_exceptions args =
     yield_completed ignore_exceptions (as_completed (awaitables alive run its args))"

definition threading_notify ::
  "('l \<Rightarrow> bool) \<Rightarrow> ('l \<Rightarrow> 'a \<Rightarrow> ('r, 'e) outcome) \<Rightarrow>
   (('l, 'r, 'e) future list \<Rightarrow> ('l, 'r, 'e) future list) \<Rightarrow> 'l list \<Rightarrow> bool \<Rightarrow> 'a \<Rightarrow> ('e + 'r) list" where
  "threading_notify alive run as_completed its ignore_exceptions args =
     yield_completed ignore_exceptions (as_completed (awaitables alive run its args))"

text \<open>
  \<open>__call__\<close> forwards its keyword arguments; \<open>ignore_exceptions\<close> is \<open>None\<close> here when
  the caller does not pass it, and the parameter's default \<open>True\<close> applies.
\<close>

definition AsyncTaskingEvent_call ::
  "('l \<Rightarrow> bool) \<Rightarrow> ('l \<Rightarrow> 'a \<Rightarrow> ('r, 'e) outcome) \<Rightarrow>
   (('l, 'r, 'e) future list \<Rightarrow> ('l, 'r, 'e) future list) \<Rightarrow> 'l list \<Rightarrow> bool option \<Rightarrow> 'a \<Rightarrow> ('e + 'r) list" where
  "AsyncTaskingEvent_call alive run as_completed its ignore_exceptions args =
     tasking_notify alive run as_completed its
       (case ignore_exceptions of None \<Rightarrow> True | Some b \<Rightarrow> b) args"

definition AsyncThreadingEvent_call ::
  "('l \<Rightarrow> bool) \<Rightarrow> ('l \<Rightarrow> 'a \<Rightarrow> ('r, 'e) outcome) \<Rightarrow>
   (('l, 'r, 'e) future list \<Rightarrow> ('l, 'r, 'e) future list) \<Rightarrow> 'l list \<Rightarrow> bool option \<Rightarrow> 'a \<Rightarrow> ('e + 'r) list" where
  "AsyncThreadingEvent_call alive run as_completed its ignore_exceptions args =
     threading_notify alive run as_completed its
       (case ignore_exceptions of None \<Rightarrow> True | Some b \<Rightarrow> b) args"

subsection \<open>Event descriptors\<close>

text \<open>
  Dispatchers are objects with identity, so they live in a store: a list of events, the
  position being the object's address. The factory of a descriptor allocates a fresh
  event. The descriptor object itself holds the field \<open>__event\<close>; there is one
  descriptor per declaration in the class body.
\<close>

type_synonym 'l store = "'l event list"

record descriptor =
  descriptor_event :: "nat option"

definition new_descriptor :: descriptor where
  "new_descriptor = \<lparr>descriptor_event = None\<rparr>"

definition factory :: "'l store \<Rightarrow> nat \<times> 'l store" where
  "factory st = (length st, st @ [new_event])"

datatype get_result = Descriptor_itself | Event_at nat

text \<open>
  \<open>__get__(self, obj, objtype)\<close>: \<open>obj\<close> is \<open>None\<close> for an access through the class.
  The result comes with the descriptor and the store as they are afterwards.
\<close>

definition descriptor_get ::
  "descriptor \<Rightarrow> 'o option \<Rightarrow> 'l store \<Rightarrow> get_result \<times> descriptor \<times> 'l store" where
  "descriptor_get self obj st =
     (case obj of
        None \<Rightarrow> (Descriptor_itself, self, st)
      | Some _ \<Rightarrow>
          (case descriptor_event self of
             None \<Rightarrow> (let (r, st') = factory st
                      in (Event_at r, self\<lparr>descriptor_event := Some r\<rparr>, st'))
           | Some r \<Rightarrow> (Event_at r, self, st)))"

text \<open>\<open>obj.event.add(callback)\<close>: the attribute access, then \<open>add\<close> on the event found.\<close>

definition add_through ::
  "descriptor \<Rightarrow> 'o \<Rightarrow> 'l \<Rightarrow> 'l store \<Rightarrow> descriptor \<times> 'l store" where
  "add_through d obj callback st =
     (case descriptor_get d (Some obj) st of
        (Event_at r, d', st') \<Rightarrow> (d', st'[r := add callback (st' ! r)])
      | (Descriptor_itself, d', st') \<Rightarrow> (d', st'))"

text \<open>
  \<open>obj.event(args)\<close> for a direct event: the attribute access, then the dispatch over the
  listeners of the event found; \<open>order_of\<close> gives the iteration order of a listener set.
\<close>

definition dispatch_through ::
  "descriptor \<Rightarrow> 'o \<Rightarrow> ('l \<Rightarrow> bool) \<Rightarrow> ('l \<Rightarrow> 'a \<Rightarrow> 'r) \<Rightarrow> ('l set \<Rightarrow> 'l list) \<Rightarrow> 'a \<Rightarrow>
   'l store \<Rightarrow> ('l \<times> 'r) list" where
  "dispatch_through d obj alive call order_of args st =
     (case descriptor_get d (Some obj) st of
        (Event_at r, d', st') \<Rightarrow> notify alive call (order_of (listeners (st' ! r))) args
      | (Descriptor_itself, d', st') \<Rightarrow> [])"

section \<open>Folding ranges (robotcode/language_server/parts/folding_range.py)\<close>

text \<open>
  \<open>_text_document_folding_range\<close> looks the document up, calls the threading event
  \<open>collect_folding_range\<close> without \<open>ignore_exceptions\<close>, and sorts the entries of the
  answer: an exception is logged, a list is appended. The result is the aggregated
  list together with the exceptions that were logged.
\<close>

fun aggregate :: "('e + 'f list) list \<Rightarrow> 'f list \<times> 'e list \<Rightarrow> 'f list \<times> 'e list" where
  "aggregate [] (results, logged) = (results, logged)"
| "aggregate (Inl e # rs) (results, logged) = aggregate rs (results, logged @ [e])"
| "aggregate (Inr result # rs) (results, logged) = aggregate rs (results @ result, logged)"

definition text_document_folding_range ::
  "('u \<Rightarrow> 'd option) \<Rightarrow> ('l \<Rightarrow> bool) \<Rightarrow> ('l \<Rightarrow> 'd \<Rightarrow> ('f list, 'e) outcome) \<Rightarrow>
   (('l, 'f list, 'e) future list \<Rightarrow> ('l, 'f list, 'e) future list) \<Rightarrow> 'l list \<Rightarrow> 'u \<Rightarrow>
   py_error + ('f list \<times> 'e list)" where
  "text_document_folding_range documents alive run as_completed its uri =
     (case documents uri of
        None \<Rightarrow> Inl KeyError
      | Some document \<Rightarrow>
          Inr (aggregate (AsyncThreadingEvent_call alive run as_completed its None document) ([], [])))"

section \<open>Reference search (robotcode/language_server/robotframework/parts/references.py)\<close>

subsection \<open>Tokens, nodes, definitions\<close>

datatype token_type = KEYWORD | NAME | ARGUMENT | VARIABLE | KEYWORD_NAME | OTHER_TOKEN

record token =
  tok_type :: token_type
  tok_value :: string
  lineno :: nat
  col_offset :: nat

type_synonym position = "nat \<times> nat"
type_synonym range = "position \<times> position"

datatype location = Location string range

text \<open>
  The class of a node decides the \<open>isinstance\<close> tests of the walks; \<open>has_tokens\<close> is the
  \<open>HasTokens\<close> test. \<open>get_token\<close> and \<open>get_tokens\<close> are the parser's statement methods:
  the first token, and all tokens, whose type is among those asked for.
\<close>

datatype node_class =
  Section | TestCase | Keyword | KeywordCall | Fixture | Template | TestTemplate | KeywordName | Other_node

record node =
  node_class :: node_class
  has_tokens :: bool
  tokens :: "token list"

definition get_token :: "token_type list \<Rightarrow> node \<Rightarrow> token option" where
  "get_token types n = find (\<lambda>t. tok_type t \<in> set types) (tokens n)"

definition get_tokens :: "token_type list \<Rightarrow> node \<Rightarrow> token list" where
  "get_tokens types n = filter (\<lambda>t. tok_type t \<in> set types) (tokens n)"

text \<open>
  Definitions are objects. \<open>obj_id\<close> is the identity of the object, what Python's
  \<open>is\<close> compares; the other fields are what the search reads of the object. The classes
  \<open>KeywordDoc\<close>, \<open>VariableDefinition\<close> and \<open>LibraryDoc\<close> are declared outside the
  files at hand, so what \<open>==\<close> does on their objects is a parameter of the model (see
  \<open>helpers\<close> below).
\<close>

record keyword_doc =
  obj_id :: nat
  name :: string
  libname :: string
  source :: "string option"
  is_error_handler :: bool
  is_any_run_keyword :: bool
  is_run_keyword :: bool
  is_run_keyword_with_condition :: bool
  run_keyword_condition_count :: nat
  is_run_keywords :: bool
  is_run_keyword_if :: bool

datatype variable_class = ArgumentDefinition | LocalVariableDefinition | Other_variable_definition

record variable_definition =
  var_obj_id :: nat
  var_class :: variable_class
  var_name :: string
  var_source :: "string option"
  var_line_no :: nat
  var_col_offset :: nat

record library_doc =
  lib_obj_id :: nat
  lib_source :: "string option"
  lib_keywords :: "keyword_doc list"

text \<open>
  The namespace of one file, as the search uses it. \<open>model\<close> lists the nodes of the
  file's syntax tree in the order in which \<open>iter_nodes\<close> yields them. The matcher
  tables are given by their keys.
\<close>

record namespace =
  ns_source :: string
  model :: "node list"
  find_keyword :: "string \<Rightarrow> keyword_doc option"
  find_variable :: "string \<Rightarrow> node list \<Rightarrow> position \<Rightarrow> variable_definition option"
  get_libraries_matchers :: "string list"
  get_resources_matchers :: "string list"
  get_libraries :: "library_doc list"
  get_resources :: "library_doc list"
  get_library_doc :: "library_doc option"

text \<open>
  Helpers of the repository that the search calls and that are defined outside the
  files at hand; they are parameters of the model. A \<open>KeywordMatcher\<close> is given by the
  normalised name it compares. \<open>KeywordDoc_eq\<close>, \<open>VariableDefinition_eq\<close> and
  \<open>LibraryDoc_eq\<close> are the \<open>__eq__\<close> methods of the three classes of definitions.
  \<open>get_keyworddoc_and_token_from_position\<close> is the method of the model helper that
  finds the keyword of a call at a position; \<open>statement_value\<close> and \<open>keyword_range\<close>
  read the \<open>value\<close> of a template statement and the \<open>range\<close> of a keyword;
  \<open>is_in_range\<close> is the method of a position.
\<close>

record helpers =
  is_not_variable_token :: "token \<Rightarrow> bool"
  iter_over_keyword_names_and_owners :: "string \<Rightarrow> (string option \<times> string option) list"
  KeywordMatcher :: "string \<Rightarrow> string"
  ALL_RUN_KEYWORDS_MATCHERS :: "string list"
  unescape :: "string \<Rightarrow> string"
  tokenize_variables :: "token \<Rightarrow> token list"
  range_from_token :: "token \<Rightarrow> range"
  range_from_token_or_node :: "node \<Rightarrow> token \<Rightarrow> range"
  uri_from_path :: "string \<Rightarrow> string"
  KeywordDoc_eq :: "keyword_doc \<Rightarrow> keyword_doc \<Rightarrow> bool"
  VariableDefinition_eq :: "variable_definition \<Rightarrow> variable_definition \<Rightarrow> bool"
  LibraryDoc_eq :: "library_doc \<Rightarrow> library_doc \<Rightarrow> bool"
  get_keyworddoc_and_token_from_position ::
    "string option \<Rightarrow> token option \<Rightarrow> token list \<Rightarrow> namespace \<Rightarrow> position \<Rightarrow>
     (keyword_doc option \<times> token) option"
  statement_value :: "node \<Rightarrow> string option"
  keyword_range :: "keyword_doc \<Rightarrow> range"
  is_in_range :: "position \<Rightarrow> range \<Rightarrow> bool"

text \<open>
  \<open>x in xs\<close> on a sequence of objects: some element is the object \<open>x\<close> itself or
  compares equal to it.
\<close>

definition py_in :: "('a \<Rightarrow> nat) \<Rightarrow> ('a \<Rightarrow> 'a \<Rightarrow> bool) \<Rightarrow> 'a \<Rightarrow> 'a list \<Rightarrow> bool" where
  "py_in ident eq x xs \<longleftrightarrow> (\<exists>e \<in> set xs. ident e = ident x \<or> eq e x)"

subsection \<open>Unwrapping of run-keyword calls\<close>

text \<open>\<open>list.index\<close>: the position of the first element equal to \<open>x\<close>.\<close>

fun index :: "'a list \<Rightarrow> 'a \<Rightarrow> nat" where
  "index [] x = 0"
| "index (y # ys) x = (if y = x then 0 else Suc (index ys x))"

text \<open>
  The \<open>while\<close> loop of the \<open>is_run_keywords\<close> branch. It returns, in order, the pairs of
  name token and argument tokens that the loop hands to
  \<open>get_keyword_references_from_tokens\<close>.
\<close>

fun run_keywords_loop :: "helpers \<Rightarrow> bool \<Rightarrow> token list \<Rightarrow> (token \<times> token list) list" where
  "run_keywords_loop h has_separator [] = []"
| "run_keywords_loop h has_separator (t # arguments) =
     (if tok_value t = ''AND'' then run_keywords_loop h has_separator arguments
      else
        (case find (\<lambda>e. tok_value e = ''AND'') arguments of
           Some separator_token \<Rightarrow>
             (if is_not_variable_token h t
              then [(t, take (index arguments separator_token) arguments)] else []) @
             run_keywords_loop h True (drop (index arguments separator_token + 1) arguments)
         | None \<Rightarrow>
             (if is_not_variable_token h t
              then [(t, if has_separator then arguments else [])] else []) @
             run_keywords_loop h has_separator arguments))"

text \<open>The \<open>while\<close> loop of the \<open>is_run_keyword_if\<close> branch, in the same way.\<close>

fun run_keyword_if_loop :: "helpers \<Rightarrow> token list \<Rightarrow> (token \<times> token list) list" where
  "run_keyword_if_loop h [] = []"
| "run_keyword_if_loop h (t # arguments) =
     (if tok_value t \<in> set [''ELSE'', ''ELSE IF''] then run_keyword_if_loop h arguments
      else
        (case find (\<lambda>e. tok_value e \<in> set [''ELSE'', ''ELSE IF'']) arguments of
           Some separator_token \<Rightarrow>
             (if is_not_variable_token h t
              then [(t, take (index arguments separator_token) arguments)] else []) @
             run_keyword_if_loop h
               (if tok_value separator_token = ''ELSE IF''
                then drop 1 (drop (index arguments separator_token + 1) arguments)
                else drop (index arguments separator_token + 1) arguments)
         | None \<Rightarrow>
             (if is_not_variable_token h t then [(t, [])] else []) @
             run_keyword_if_loop h arguments))"

text \<open>
  The branches of \<open>get_keyword_references_from_any_run_keyword\<close>: the nested
  invocations it hands on, each a name token, its argument tokens and the
  \<open>unescape_kw_token\<close> flag. Reading \<open>arguments[1]\<close> of a one-element list raises
  \<open>IndexError\<close>.
\<close>

definition any_run_keyword_calls ::
  "helpers \<Rightarrow> namespace \<Rightarrow> token option \<Rightarrow> token list \<Rightarrow> py_error + (token \<times> token list \<times> bool) list" where
  "any_run_keyword_calls h ns kw_token arguments =
     (case kw_token of
        None \<Rightarrow> Inr []
      | Some tk \<Rightarrow>
          if \<not> is_not_variable_token h tk then Inr []
          else
            (case find_keyword ns (tok_value tk) of
               None \<Rightarrow> Inr []
             | Some kw \<Rightarrow>
                 if \<not> is_any_run_keyword kw then Inr []
                 else if is_run_keyword kw \<and> length arguments > 0
                         \<and> is_not_variable_token h (arguments ! 0)
                 then Inr [(arguments ! 0, drop 1 arguments, False)]
                 else
                   (case (if is_run_keyword_with_condition kw
                             \<and> length arguments > run_keyword_condition_count kw
                          then (if length arguments \<le> 1 then Inl IndexError
                                else Inr (is_not_variable_token h (arguments ! 1)))
                          else Inr False) of
                      Inl e \<Rightarrow> Inl e
                    | Inr True \<Rightarrow>
                        Inr [(arguments ! run_keyword_condition_count kw,
                              drop (run_keyword_condition_count kw + 1) arguments, True)]
                    | Inr False \<Rightarrow>
                        if is_run_keywords kw
                        then Inr (map (\<lambda>c. (fst c, snd c, True))
                                    (run_keywords_loop h False arguments))
                        else if is_run_keyword_if kw \<and> length arguments > 1
                        then Inr (map (\<lambda>c. (fst c, snd c, True))
                                    (run_keyword_if_loop h (drop 1 arguments)))
                        else Inr [])))"

text \<open>
  An exception raised inside a generator ends the consumer's loop, and what it had
  collected is lost with the frame: the first error wins, otherwise the yields are
  concatenated.
\<close>

fun concat_results :: "(py_error + 'a list) list \<Rightarrow> py_error + 'a list" where
  "concat_results [] = Inr []"
| "concat_results (Inl e # rs) = Inl e"
| "concat_results (Inr xs # rs) =
     (case concat_results rs of Inl e \<Rightarrow> Inl e | Inr ys \<Rightarrow> Inr (xs @ ys))"

function get_keyword_references_from_tokens ::
    "helpers \<Rightarrow> namespace \<Rightarrow> keyword_doc \<Rightarrow> node \<Rightarrow> token option \<Rightarrow> token list \<Rightarrow> bool \<Rightarrow>
     py_error + location list"
  and get_keyword_references_from_any_run_keyword ::
    "helpers \<Rightarrow> namespace \<Rightarrow> keyword_doc \<Rightarrow> node \<Rightarrow> token option \<Rightarrow> token list \<Rightarrow>
     py_error + location list"
where
  "get_keyword_references_from_tokens h ns kw_doc n kw_token arguments unescape_kw_token =
     (case kw_token of
        None \<Rightarrow> Inr []
      | Some tk \<Rightarrow>
          if \<not> is_not_variable_token h tk then Inr []
          else
            concat_results (map
              (\<lambda>p.
                 if (case fst p of
                       None \<Rightarrow> False
                     | Some lib \<Rightarrow>
                         KeywordMatcher h lib \<notin> set (get_libraries_matchers ns)
                         \<and> KeywordMatcher h lib \<notin> set (get_resources_matchers ns))
                 then Inr []
                 else
                   (case snd p of
                      None \<Rightarrow> Inr []
                    | Some nm \<Rightarrow>
                        concat_results
                          [Inr (if KeywordMatcher h (name kw_doc) = KeywordMatcher h nm
                                   \<and> (case find_keyword ns
                                              (if unescape_kw_token then unescape h (tok_value tk)
                                               else tok_value tk) of
                                         None \<Rightarrow> False
                                       | Some kw \<Rightarrow> KeywordDoc_eq h kw kw_doc)
                                then [Location (uri_from_path h (ns_source ns))
                                        (range_from_token_or_node h n tk)]
                                else []),
                           if KeywordMatcher h nm \<in> set (ALL_RUN_KEYWORDS_MATCHERS h)
                              \<and> arguments \<noteq> []
                           then get_keyword_references_from_any_run_keyword h ns kw_doc n
                                  (Some tk) arguments
                           else Inr []]))
              (iter_over_keyword_names_and_owners h
                 (if unescape_kw_token then unescape h (tok_value tk) else tok_value tk))))"
| "get_keyword_references_from_any_run_keyword h ns kw_doc n kw_token arguments =
     (case any_run_keyword_calls h ns kw_token arguments of
        Inl e \<Rightarrow> Inl e
      | Inr calls \<Rightarrow>
          concat_results (map
            (\<lambda>c. get_keyword_references_from_tokens h ns kw_doc n
                   (Some (fst c)) (fst (snd c)) (snd (snd c)))
            calls))"
  by pat_completeness auto

subsection \<open>The walks over one file\<close>

text \<open>
  A walk collects locations; the state also counts the calls of \<open>check_canceled\<close>, the
  only place where a walk looks at the cancellation signal.
\<close>

record walk_state =
  result :: "location list"
  check_canceled_calls :: nat

definition check_canceled :: "walk_state \<Rightarrow> walk_state" where
  "check_canceled st = st\<lparr>check_canceled_calls := check_canceled_calls st + 1\<rparr>"

definition keyword_references_of_node ::
  "helpers \<Rightarrow> namespace \<Rightarrow> keyword_doc \<Rightarrow> node \<Rightarrow> py_error + location list" where
  "keyword_references_of_node h ns kw_doc n =
     (if node_class n = KeywordCall
      then get_keyword_references_from_tokens h ns kw_doc n
             (get_token [KEYWORD] n) (get_tokens [ARGUMENT] n) False
      else if node_class n = Fixture
      then get_keyword_references_from_tokens h ns kw_doc n
             (get_token [NAME] n) (get_tokens [ARGUMENT] n) False
      else if node_class n \<in> {Template, TestTemplate}
      then get_keyword_references_from_tokens h ns kw_doc n
             (get_token [NAME, ARGUMENT] n) [] False
      else Inr [])"

fun find_keyword_references_in_namespace_loop ::
  "helpers \<Rightarrow> namespace \<Rightarrow> keyword_doc \<Rightarrow> node list \<Rightarrow> walk_state \<Rightarrow> py_error + walk_state" where
  "find_keyword_references_in_namespace_loop h ns kw_doc [] st = Inr st"
| "find_keyword_references_in_namespace_loop h ns kw_doc (n # nodes) st =
     (case keyword_references_of_node h ns kw_doc n of
        Inl e \<Rightarrow> Inl e
      | Inr locs \<Rightarrow>
          find_keyword_references_in_namespace_loop h ns kw_doc nodes
            ((check_canceled st)\<lparr>result := result (check_canceled st) @ locs\<rparr>))"

definition find_keyword_references_in_namespace ::
  "helpers \<Rightarrow> namespace \<Rightarrow> keyword_doc \<Rightarrow> py_error + walk_state" where
  "find_keyword_references_in_namespace h ns kw_doc =
     find_keyword_references_in_namespace_loop h ns kw_doc (model ns)
       \<lparr>result = [], check_canceled_calls = 0\<rparr>"

text \<open>
  The variable walk. The namespace may be absent (\<open>get_namespace\<close> is not checked
  there); calling a method on \<open>None\<close> raises \<open>AttributeError\<close>.
\<close>

definition sub_token_references ::
  "helpers \<Rightarrow> namespace option \<Rightarrow> variable_definition \<Rightarrow> string \<Rightarrow> node list \<Rightarrow> token \<Rightarrow> token \<Rightarrow>
   py_error + location list" where
  "sub_token_references h namespace variable doc_uri scope tk sub_token =
     (if tok_type sub_token = VARIABLE
      then (case namespace of
              None \<Rightarrow> Inl AttributeError
            | Some ns \<Rightarrow>
                if (case find_variable ns (tok_value sub_token) scope
                           (fst (range_from_token h tk)) of
                      None \<Rightarrow> False
                    | Some found_variable \<Rightarrow> VariableDefinition_eq h found_variable variable)
                then Inr [Location doc_uri (range_from_token h sub_token)]
                else Inr [])
      else Inr [])"

definition variable_references_of_node ::
  "helpers \<Rightarrow> namespace option \<Rightarrow> variable_definition \<Rightarrow> string \<Rightarrow> node option \<Rightarrow> node \<Rightarrow>
   py_error + location list" where
  "variable_references_of_node h namespace variable doc_uri current_block n =
     concat_results (map
       (\<lambda>tk. concat_results (map
          (sub_token_references h namespace variable doc_uri
             ((case current_block of None \<Rightarrow> [] | Some b \<Rightarrow> [b]) @ [n]) tk)
          (tokenize_variables h tk)))
       (tokens n))"

definition next_block :: "node option \<Rightarrow> node \<Rightarrow> node option" where
  "next_block current_block n =
     (if node_class n = Section then None
      else if node_class n \<in> {TestCase, Keyword} then Some n
      else current_block)"

fun find_variable_references_in_file_loop ::
  "helpers \<Rightarrow> namespace option \<Rightarrow> variable_definition \<Rightarrow> string \<Rightarrow> node list \<Rightarrow> node option \<Rightarrow>
   walk_state \<Rightarrow> py_error + walk_state" where
  "find_variable_references_in_file_loop h namespace variable doc_uri [] current_block st = Inr st"
| "find_variable_references_in_file_loop h namespace variable doc_uri (n # nodes) current_block st =
     (if has_tokens n
      then (case variable_references_of_node h namespace variable doc_uri
                   (next_block current_block n) n of
              Inl e \<Rightarrow> Inl e
            | Inr locs \<Rightarrow>
                find_variable_references_in_file_loop h namespace variable doc_uri nodes
                  (next_block current_block n) (st\<lparr>result := result st @ locs\<rparr>))
      else find_variable_references_in_file_loop h namespace variable doc_uri nodes
             (next_block current_block n) st)"

subsection \<open>The workspace, and the search over all files\<close>

record document =
  uri :: string
  path :: string

text \<open>
  The document cache gives the namespace and the model of a document. \<open>iter_files\<close>
  stands for the enumeration of the folder's script and resource files with the exclude
  patterns applied.
\<close>

record documents_cache =
  get_namespace :: "document \<Rightarrow> namespace option"
  get_model :: "document \<Rightarrow> node list"

text \<open>
  Files are given by their paths. \<open>samefile\<close> is \<open>Path.samefile\<close>: it asks the file
  system whether two paths name one file, and raises \<open>FileNotFoundError\<close> (here
  \<open>None\<close>) when one of them names no file.
\<close>

record workspace =
  get_workspace_folder :: "string \<Rightarrow> string option"
  iter_files :: "string \<Rightarrow> string list"
  get_or_open_document :: "string \<Rightarrow> document"
  samefile :: "string \<Rightarrow> string \<Rightarrow> bool option"

text \<open>
  The test that lets \<open>_find_keyword_references_in_file\<close> skip a file, conjunct by
  conjunct from the left; the namespace is touched only by the last two.
\<close>

definition skip_file ::
  "helpers \<Rightarrow> workspace \<Rightarrow> namespace option \<Rightarrow> library_doc option \<Rightarrow> string \<Rightarrow> py_error + bool" where
  "skip_file h parent namespace lib_doc file =
     (case lib_doc of
        None \<Rightarrow> Inr False
      | Some ld \<Rightarrow>
          (case lib_source ld of
             None \<Rightarrow> Inr False
           | Some src \<Rightarrow>
               (case samefile parent file src of
                  None \<Rightarrow> Inl FileNotFoundError
                | Some True \<Rightarrow> Inr False
                | Some False \<Rightarrow>
                    (case namespace of
                       None \<Rightarrow> Inl AttributeError
                     | Some ns \<Rightarrow>
                         Inr (\<not> py_in lib_obj_id (LibraryDoc_eq h) ld (get_libraries ns)
                              \<and> \<not> py_in lib_obj_id (LibraryDoc_eq h) ld (get_resources ns))))))"

definition find_keyword_references_in_file ::
  "helpers \<Rightarrow> documents_cache \<Rightarrow> workspace \<Rightarrow> keyword_doc \<Rightarrow> library_doc option \<Rightarrow> string \<Rightarrow>
   py_error + location list" where
  "find_keyword_references_in_file h cache parent kw_doc lib_doc file =
     (case skip_file h parent (get_namespace cache (get_or_open_document parent file))
             lib_doc file of
        Inl e \<Rightarrow> Inl e
      | Inr True \<Rightarrow> Inr []
      | Inr False \<Rightarrow>
          (case get_namespace cache (get_or_open_document parent file) of
             None \<Rightarrow> Inl AttributeError
           | Some namespace \<Rightarrow>
               (case find_keyword_references_in_namespace h namespace kw_doc of
                  Inl e \<Rightarrow> Inl e
                | Inr st \<Rightarrow> Inr (result st))))"

definition find_variable_references_in_file ::
  "helpers \<Rightarrow> documents_cache \<Rightarrow> workspace \<Rightarrow> variable_definition \<Rightarrow> string \<Rightarrow> py_error + walk_state" where
  "find_variable_references_in_file h cache parent variable file =
     find_variable_references_in_file_loop h
       (get_namespace cache (get_or_open_document parent file)) variable
       (uri (get_or_open_document parent file))
       (get_model cache (get_or_open_document parent file)) None
       \<lparr>result = [], check_canceled_calls = 0\<rparr>"

text \<open>
  \<open>asyncio.gather(..., return_exceptions=True)\<close> followed by the loop that logs and
  skips the exceptions and extends the result with the lists.
\<close>

fun gather_results :: "(py_error + 'a list) list \<Rightarrow> 'a list" where
  "gather_results [] = []"
| "gather_results (Inl e # rs) = gather_results rs"
| "gather_results (Inr xs # rs) = xs @ gather_results rs"

text \<open>
  The two entry points. The declared result is a list; \<open>None\<close> is what the function
  returns at \<open>return None\<close>.
\<close>

definition find_keyword_references ::
  "helpers \<Rightarrow> documents_cache \<Rightarrow> workspace \<Rightarrow> document \<Rightarrow> keyword_doc \<Rightarrow> location list option" where
  "find_keyword_references h cache parent doc kw_doc =
     (case get_workspace_folder parent (uri doc) of
        None \<Rightarrow> Some []
      | Some folder \<Rightarrow>
          (case get_namespace cache doc of
             None \<Rightarrow> None
           | Some namespace \<Rightarrow>
               Some (gather_results (map
                 (find_keyword_references_in_file h cache parent kw_doc
                    (case find (\<lambda>e. py_in obj_id (KeywordDoc_eq h) kw_doc (lib_keywords e))
                            (get_libraries namespace) of
                       Some e \<Rightarrow> Some e
                     | None \<Rightarrow>
                         (case find (\<lambda>e. py_in obj_id (KeywordDoc_eq h) kw_doc (lib_keywords e))
                                 (get_resources namespace) of
                            Some e \<Rightarrow> Some e
                          | None \<Rightarrow> get_library_doc namespace)))
                 (iter_files parent folder)))))"

definition find_variable_references ::
  "helpers \<Rightarrow> documents_cache \<Rightarrow> workspace \<Rightarrow> document \<Rightarrow> variable_definition \<Rightarrow> location list option" where
  "find_variable_references h cache parent doc variable =
     (case get_workspace_folder parent (uri doc) of
        None \<Rightarrow> Some []
      | Some folder \<Rightarrow>
          (case get_namespace cache doc of
             None \<Rightarrow> None
           | Some namespace \<Rightarrow>
               Some (gather_results (map
                 (\<lambda>f. case find_variable_references_in_file h cache parent variable f of
                         Inl e \<Rightarrow> Inl e
                       | Inr st \<Rightarrow> Inr (result st))
                 (if var_class variable \<in> {ArgumentDefinition, LocalVariableDefinition}
                  then [path doc]
                  else iter_files parent folder)))))"

subsection \<open>The construct handlers\<close>

record reference_context =
  include_declaration :: bool

text \<open>\<open>[*xs, *ys]\<close>: unpacking \<open>None\<close> raises \<open>TypeError\<close>.\<close>

definition splice :: "'a list \<Rightarrow> 'a list option \<Rightarrow> py_error + 'a list" where
  "splice xs ys = (case ys of None \<Rightarrow> Inl TypeError | Some zs \<Rightarrow> Inr (xs @ zs))"

text \<open>The \<open>return [...]\<close> of a handler: the spliced list, or the exception of the splice.\<close>

definition return_spliced :: "'a list \<Rightarrow> 'a list option \<Rightarrow> py_error + 'a list option" where
  "return_spliced xs ys = (case splice xs ys of Inl e \<Rightarrow> Inl e | Inr locs \<Rightarrow> Inr (Some locs))"

text \<open>\<open>get_value\<close> is the parser's statement method: the value of the first token of a type.\<close>

definition get_value :: "token_type list \<Rightarrow> node \<Rightarrow> string option" where
  "get_value types n = map_option tok_value (get_token types n)"

text \<open>
  The handlers for the header of a keyword definition, for a keyword call, for a fixture
  and for a template. Each returns \<open>None\<close> for an absent result.
\<close>

definition references_KeywordName ::
  "helpers \<Rightarrow> documents_cache \<Rightarrow> workspace \<Rightarrow> node \<Rightarrow> document \<Rightarrow> position \<Rightarrow>
   reference_context \<Rightarrow> py_error + location list option" where
  "references_KeywordName h cache parent n doc pos context =
     (case get_namespace cache doc of
        None \<Rightarrow> Inr None
      | Some namespace \<Rightarrow>
          (case get_token [KEYWORD_NAME] n of
             None \<Rightarrow> Inr None
           | Some name_token \<Rightarrow>
               (case find_keyword namespace (tok_value name_token) of
                  None \<Rightarrow> Inr None
                | Some keyword \<Rightarrow>
                    (case source keyword of
                       None \<Rightarrow> Inr None
                     | Some src \<Rightarrow>
                         if src \<noteq> [] \<and> \<not> is_error_handler keyword
                         then return_spliced
                                (if include_declaration context
                                 then [Location (uri_from_path h src)
                                         (range_from_token_or_node h n name_token)]
                                 else [])
                                (find_keyword_references h cache parent doc keyword)
                         else Inr None))))"

definition references_of_found_keyword ::
  "helpers \<Rightarrow> documents_cache \<Rightarrow> workspace \<Rightarrow> document \<Rightarrow> reference_context \<Rightarrow>
   (keyword_doc option \<times> token) option \<Rightarrow> py_error + location list option" where
  "references_of_found_keyword h cache parent doc context keyword =
     (case keyword of
        None \<Rightarrow> Inr None
      | Some (None, tk) \<Rightarrow> Inr None
      | Some (Some kw, tk) \<Rightarrow>
          (case source kw of
             None \<Rightarrow> Inr None
           | Some src \<Rightarrow>
               return_spliced
                 (if include_declaration context
                  then [Location (uri_from_path h src) (keyword_range h kw)]
                  else [])
                 (find_keyword_references h cache parent doc kw)))"

definition references_KeywordCall ::
  "helpers \<Rightarrow> documents_cache \<Rightarrow> workspace \<Rightarrow> node \<Rightarrow> document \<Rightarrow> position \<Rightarrow>
   reference_context \<Rightarrow> py_error + location list option" where
  "references_KeywordCall h cache parent n doc pos context =
     (case get_namespace cache doc of
        None \<Rightarrow> Inr None
      | Some namespace \<Rightarrow>
          references_of_found_keyword h cache parent doc context
            (get_keyworddoc_and_token_from_position h (get_value [KEYWORD] n)
               (get_token [KEYWORD] n) (get_tokens [ARGUMENT] n) namespace pos))"

definition references_Fixture ::
  "helpers \<Rightarrow> documents_cache \<Rightarrow> workspace \<Rightarrow> node \<Rightarrow> document \<Rightarrow> position \<Rightarrow>
   reference_context \<Rightarrow> py_error + location list option" where
  "references_Fixture h cache parent n doc pos context =
     (case get_namespace cache doc of
        None \<Rightarrow> Inr None
      | Some namespace \<Rightarrow>
          references_of_found_keyword h cache parent doc context
            (get_keyworddoc_and_token_from_position h (get_value [NAME] n)
               (get_token [NAME] n) (get_tokens [ARGUMENT] n) namespace pos))"

definition references_Template_or_TestTemplate ::
  "helpers \<Rightarrow> documents_cache \<Rightarrow> workspace \<Rightarrow> node \<Rightarrow> document \<Rightarrow> position \<Rightarrow>
   reference_context \<Rightarrow> py_error + location list option" where
  "references_Template_or_TestTemplate h cache parent n doc pos context =
     (case statement_value h n of
        None \<Rightarrow> Inr None
      | Some v \<Rightarrow>
          if v = [] then Inr None
          else
            (case get_token [NAME, ARGUMENT] n of
               None \<Rightarrow> Inr None
             | Some name_token \<Rightarrow>
                 if is_in_range h pos (range_from_token h name_token)
                 then
                   (case get_namespace cache doc of
                      None \<Rightarrow> Inr None
                    | Some namespace \<Rightarrow>
                        (case find_keyword namespace v of
                           None \<Rightarrow> Inr None
                         | Some keyword \<Rightarrow>
                             (case source keyword of
                                None \<Rightarrow> Inr None
                              | Some src \<Rightarrow>
                                  return_spliced
                                    (if include_declaration context
                                     then [Location (uri_from_path h src)
                                             (keyword_range h keyword)]
                                     else [])
                                    (find_keyword_references h cache parent doc keyword))))
                 else Inr None))"

subsection \<open>What the search may accept\<close>

text \<open>
  A location is an accepted use of the keyword \<open>kw_doc\<close> at the token \<open>tk\<close> when it is
  that token's place in the file, the name of the token (as written, or escape-decoded)
  splits into a bare name that matches the declared name of \<open>kw_doc\<close>, and the
  namespace of the file resolves the name to a definition that compares equal to
  \<open>kw_doc\<close>.
\<close>

definition accepted_use :: "helpers \<Rightarrow> namespace \<Rightarrow> keyword_doc \<Rightarrow> node \<Rightarrow> token \<Rightarrow> location \<Rightarrow> bool" where
  "accepted_use h ns kw_doc n tk loc \<longleftrightarrow>
     loc = Location (uri_from_path h (ns_source ns)) (range_from_token_or_node h n tk)
     \<and> (\<exists>nm \<in> {tok_value tk, unescape h (tok_value tk)}.
           (case find_keyword ns nm of
              None \<Rightarrow> False
            | Some kw \<Rightarrow> KeywordDoc_eq h kw kw_doc)
           \<and> (\<exists>p \<in> set (iter_over_keyword_names_and_owners h nm).
                 case snd p of
                   None \<Rightarrow> False
                 | Some bare \<Rightarrow> KeywordMatcher h bare = KeywordMatcher h (name kw_doc)))"

text \<open>
  The test case or keyword block that encloses the node met last, given the nodes met
  so far in document order, the last one included: the last test case or keyword met,
  unless a section has begun since.
\<close>

definition enclosing_block :: "node list \<Rightarrow> node option" where
  "enclosing_block visited =
     (case find (\<lambda>n. node_class n \<in> {Section, TestCase, Keyword}) (rev visited) of
        None \<Rightarrow> None
      | Some b \<Rightarrow> if node_class b = Section then None else Some b)"

text \<open>
  A location is a resolved use of \<open>variable\<close> in the node \<open>n\<close> when it is the place of
  a variable reference embedded in a token of \<open>n\<close> and the namespace resolves the
  reference, through the enclosing block and the node, to a definition that compares
  equal to \<open>variable\<close>.
\<close>

definition resolved_variable_use ::
  "helpers \<Rightarrow> namespace \<Rightarrow> variable_definition \<Rightarrow> string \<Rightarrow> node option \<Rightarrow> node \<Rightarrow> location \<Rightarrow> bool" where
  "resolved_variable_use h ns variable doc_uri current_block n loc \<longleftrightarrow>
     (\<exists>tk \<in> set (tokens n). \<exists>sub_token \<in> set (tokenize_variables h tk).
        tok_type sub_token = VARIABLE
        \<and> loc = Location doc_uri (range_from_token h sub_token)
        \<and> (case find_variable ns (tok_value sub_token)
                   ((case current_block of None \<Rightarrow> [] | Some b \<Rightarrow> [b]) @ [n])
                   (fst (range_from_token h tk)) of
              None \<Rightarrow> False
            | Some found_variable \<Rightarrow> VariableDefinition_eq h found_variable variable))"

subsection \<open>Histories of a registry\<close>

text \<open>
  What can happen to a registry between two dispatches: a listener is added, removed, or
  expires (its weak reference then runs \<open>remove_listener\<close>).
\<close>

datatype 'l registry_op = Add 'l | Remove 'l | Expire 'l

fun run_ops :: "'l registry_op list \<Rightarrow> 'l event \<Rightarrow> py_error + 'l event" where
  "run_ops [] self = Inr self"
| "run_ops (Add l # ops) self = run_ops ops (add l self)"
| "run_ops (Remove l # ops) self =
     (case remove l self of Inl e \<Rightarrow> Inl e | Inr self' \<Rightarrow> run_ops ops self')"
| "run_ops (Expire l # ops) self =
     (case remove_listener l self of Inl e \<Rightarrow> Inl e | Inr self' \<Rightarrow> run_ops ops self')"

section \<open>Concrete helpers and data for the examples\<close>

text \<open>
  Modelled from the spec: the name matcher (\<open>KeywordMatcher\<close>, defined outside the files
  at hand) compares names case-, space- and underscore-insensitively.
\<close>

definition lower :: "char \<Rightarrow> char" where
  "lower c =
     (case map_of (zip ''ABCDEFGHIJKLMNOPQRSTUVWXYZ'' ''abcdefghijklmnopqrstuvwxyz'') c of
        None \<Rightarrow> c
      | Some d \<Rightarrow> d)"

definition normalize :: "string \<Rightarrow> string" where
  "normalize s = map lower (filter (\<lambda>c. c \<noteq> CHR '' '' \<and> c \<noteq> CHR ''_'') s)"

text \<open>
  Modelled from the spec: \<open>iter_over_keyword_names_and_owners\<close> (defined outside the files
  at hand) splits a name into an optional qualifier and a bare name, \<open>Qualifier.Name\<close>;
  the unqualified reading comes first.
\<close>

fun owner_splits :: "string \<Rightarrow> string \<Rightarrow> (string option \<times> string option) list" where
  "owner_splits pre [] = []"
| "owner_splits pre (c # cs) =
     (if c = CHR ''.'' then [(Some pre, Some cs)] else []) @ owner_splits (pre @ [c]) cs"

definition names_and_owners :: "string \<Rightarrow> (string option \<times> string option) list" where
  "names_and_owners full_name = (None, Some full_name) # owner_splits [] full_name"

text \<open>
  Modelled from the spec: \<open>is_not_variable_token\<close> and \<open>tokenize_variables\<close> (defined
  outside the files at hand) tell whether a token is a variable reference such as
  \<open>${name}\<close>, and give the variable references embedded in a token; here a token is one
  variable reference or none.
\<close>

definition is_variable_reference :: "string \<Rightarrow> bool" where
  "is_variable_reference s =
     (case s of c # d # _ \<Rightarrow> c \<in> set ''$@&%'' \<and> d = CHR ''{'' | _ \<Rightarrow> False)"

definition example_range :: "token \<Rightarrow> range" where
  "example_range t =
     ((lineno t - 1, col_offset t), (lineno t - 1, col_offset t + length (tok_value t)))"

text \<open>
  In the examples \<open>==\<close> on definitions is the comparison that a data class generates:
  field by field, without regard to which object it is. The keyword of a call is the
  one the namespace finds for its name, a position is in a range when it is on the
  range's line between its columns, and the value of a template is that of its first
  name or argument token.
\<close>

definition example_helpers :: helpers where
  "example_helpers =
     \<lparr>is_not_variable_token = (\<lambda>t. \<not> is_variable_reference (tok_value t)),
      iter_over_keyword_names_and_owners = names_and_owners,
      KeywordMatcher = normalize,
      ALL_RUN_KEYWORDS_MATCHERS =
        [''runkeyword'', ''runkeywordunless'', ''waituntilkeywordsucceeds'', ''runkeywords'',
         ''runkeywordif''],
      unescape = (\<lambda>s. s),
      tokenize_variables =
        (\<lambda>t. if is_variable_reference (tok_value t) then [t\<lparr>tok_type := VARIABLE\<rparr>] else [t]),
      range_from_token = example_range,
      range_from_token_or_node = (\<lambda>n t. example_range t),
      uri_from_path = (\<lambda>p. ''file://'' @ p),
      KeywordDoc_eq = (\<lambda>a b. a\<lparr>obj_id := 0\<rparr> = b\<lparr>obj_id := 0\<rparr>),
      VariableDefinition_eq = (\<lambda>a b. a\<lparr>var_obj_id := 0\<rparr> = b\<lparr>var_obj_id := 0\<rparr>),
      LibraryDoc_eq = (\<lambda>a b. a\<lparr>lib_obj_id := 0\<rparr> = b\<lparr>lib_obj_id := 0\<rparr>),
      get_keyworddoc_and_token_from_position =
        (\<lambda>kw tk args ns pos.
           case tk of
             None \<Rightarrow> None
           | Some t \<Rightarrow> (case kw of None \<Rightarrow> None | Some s \<Rightarrow> Some (find_keyword ns s, t))),
      statement_value = (\<lambda>n. map_option tok_value (get_token [NAME, ARGUMENT] n)),
      keyword_range = (\<lambda>k. ((0, 0), (0, 0))),
      is_in_range =
        (\<lambda>pos r. fst pos = fst (fst r) \<and> snd (fst r) \<le> snd pos \<and> snd pos \<le> snd (snd r))\<rparr>"

definition tok :: "token_type \<Rightarrow> string \<Rightarrow> nat \<Rightarrow> nat \<Rightarrow> token" where
  "tok ty v line col = \<lparr>tok_type = ty, tok_value = v, lineno = line, col_offset = col\<rparr>"

text \<open>
  The objects of the examples have the identity 0, and the variable defined at a line
  has that line as its identity; where an example needs two objects of equal fields it
  sets the identities itself.
\<close>

definition builtin_keyword :: "string \<Rightarrow> bool \<Rightarrow> bool \<Rightarrow> bool \<Rightarrow> nat \<Rightarrow> bool \<Rightarrow> bool \<Rightarrow> keyword_doc" where
  "builtin_keyword nm any rk rkc cnt rks rkif =
     \<lparr>obj_id = 0, name = nm, libname = ''BuiltIn'', source = None, is_error_handler = False,
      is_any_run_keyword = any, is_run_keyword = rk, is_run_keyword_with_condition = rkc,
      run_keyword_condition_count = cnt, is_run_keywords = rks, is_run_keyword_if = rkif\<rparr>"

definition user_keyword :: "string \<Rightarrow> string \<Rightarrow> keyword_doc" where
  "user_keyword nm src =
     \<lparr>obj_id = 0, name = nm, libname = src, source = Some src, is_error_handler = False,
      is_any_run_keyword = False, is_run_keyword = False, is_run_keyword_with_condition = False,
      run_keyword_condition_count = 0, is_run_keywords = False, is_run_keyword_if = False\<rparr>"

definition example_keywords :: "keyword_doc list" where
  "example_keywords =
     [builtin_keyword ''Run Keyword'' True True False 0 False False,
      builtin_keyword ''Run Keyword Unless'' True False True 1 False False,
      builtin_keyword ''Wait Until Keyword Succeeds'' True False True 2 False False,
      builtin_keyword ''Run Keywords'' True False False 0 True False,
      builtin_keyword ''Run Keyword If'' True False False 0 False True,
      builtin_keyword ''Log'' False False False 0 False False,
      user_keyword ''KwA'' ''/ws/a.resource'',
      user_keyword ''KwB'' ''/ws/a.resource'',
      user_keyword ''KwC'' ''/ws/a.resource'']"

definition example_variable :: "nat \<Rightarrow> variable_definition" where
  "example_variable line =
     \<lparr>var_obj_id = line, var_class = LocalVariableDefinition, var_name = ''${x}'',
      var_source = Some ''/ws/t.robot'',
      var_line_no = line, var_col_offset = 4\<rparr>"

text \<open>
  A file with two test cases, each with its own local variable \<open>${x}\<close>; a variable is
  resolved in the block that encloses the use.
\<close>

definition example_model :: "node list" where
  "example_model =
     [\<lparr>node_class = TestCase, has_tokens = False, tokens = []\<rparr>,
      \<lparr>node_class = KeywordCall, has_tokens = True,
       tokens = [tok KEYWORD ''KwA'' 3 4, tok ARGUMENT ''${x}'' 3 11]\<rparr>,
      \<lparr>node_class = TestCase, has_tokens = False, tokens = []\<rparr>,
      \<lparr>node_class = KeywordCall, has_tokens = True,
       tokens = [tok KEYWORD ''kw_a'' 7 4, tok ARGUMENT ''${x}'' 7 12]\<rparr>]"

definition example_namespace :: "keyword_doc list \<Rightarrow> namespace" where
  "example_namespace kws =
     \<lparr>ns_source = ''/ws/t.robot'',
      model = example_model,
      find_keyword = (\<lambda>s. find (\<lambda>k. normalize (name k) = normalize s) kws),
      find_variable =
        (\<lambda>nm scope pos.
           if nm = ''${x}'' then Some (example_variable (if fst pos < 4 then 2 else 6)) else None),
      get_libraries_matchers = [''builtin''],
      get_resources_matchers = [''a''],
      get_libraries = [],
      get_resources = [],
      get_library_doc = None\<rparr>"

definition example_document :: document where
  "example_document = \<lparr>uri = ''file:///ws/t.robot'', path = ''/ws/t.robot''\<rparr>"

definition other_document :: document where
  "other_document = \<lparr>uri = ''file:///other/x.robot'', path = ''/other/x.robot''\<rparr>"

definition keyword_name_node :: node where
  "keyword_name_node =
     \<lparr>node_class = KeywordName, has_tokens = True, tokens = [tok KEYWORD_NAME ''KwA'' 10 0]\<rparr>"

definition fixture_node :: node where
  "fixture_node =
     \<lparr>node_class = Fixture, has_tokens = True, tokens = [tok NAME ''KwA'' 2 15]\<rparr>"

definition template_node :: node where
  "template_node =
     \<lparr>node_class = Template, has_tokens = True, tokens = [tok NAME ''KwA'' 2 18]\<rparr>"

definition no_workspace :: workspace where
  "no_workspace =
     \<lparr>get_workspace_folder = (\<lambda>u. None), iter_files = (\<lambda>f. []),
      get_or_open_document = (\<lambda>f. \<lparr>uri = ''file://'' @ f, path = f\<rparr>),
      samefile = (\<lambda>a b. Some (a = b))\<rparr>"

definition example_workspace :: workspace where
  "example_workspace =
     \<lparr>get_workspace_folder = (\<lambda>u. if u = ''file:///ws/t.robot'' then Some ''/ws'' else None),
      iter_files = (\<lambda>f. [''/ws/t.robot'']),
      get_or_open_document = (\<lambda>f. \<lparr>uri = ''file://'' @ f, path = f\<rparr>),
      samefile = (\<lambda>a b. Some (a = b))\<rparr>"

definition empty_cache :: documents_cache where
  "empty_cache = \<lparr>get_namespace = (\<lambda>d. None), get_model = (\<lambda>d. [])\<rparr>"

definition example_cache :: documents_cache where
  "example_cache =
     \<lparr>get_namespace = (\<lambda>d. Some (example_namespace example_keywords)),
      get_model = (\<lambda>d. example_model)\<rparr>"

text \<open>
  A file with a test case and a keyword, each with its own local variable \<open>${x}\<close>, and
  a use of \<open>${x}\<close> outside both. The namespace resolves \<open>${x}\<close> through the scope
  chain it is given: to the variable of the test case in a test case, to that of the
  keyword in a keyword, to nothing outside.
\<close>

definition scoped_model :: "node list" where
  "scoped_model =
     [\<lparr>node_class = Section, has_tokens = False, tokens = []\<rparr>,
      \<lparr>node_class = TestCase, has_tokens = False, tokens = []\<rparr>,
      \<lparr>node_class = KeywordCall, has_tokens = True,
       tokens = [tok KEYWORD ''KwA'' 3 4, tok ARGUMENT ''${x}'' 3 11]\<rparr>,
      \<lparr>node_class = Section, has_tokens = False, tokens = []\<rparr>,
      \<lparr>node_class = Other_node, has_tokens = True, tokens = [tok ARGUMENT ''${x}'' 5 4]\<rparr>,
      \<lparr>node_class = Keyword, has_tokens = False, tokens = []\<rparr>,
      \<lparr>node_class = KeywordCall, has_tokens = True,
       tokens = [tok KEYWORD ''KwB'' 7 4, tok ARGUMENT ''${x}'' 7 11]\<rparr>]"

definition scoped_namespace :: namespace where
  "scoped_namespace =
     (example_namespace example_keywords)
       \<lparr>model := scoped_model,
        find_variable :=
          (\<lambda>nm scope pos.
             if nm = ''${x}''
             then (case scope of
                     [b, n] \<Rightarrow>
                       if node_class b = TestCase then Some (example_variable 2)
                       else if node_class b = Keyword then Some (example_variable 6)
                       else None
                   | _ \<Rightarrow> None)
             else None)\<rparr>"

definition scoped_cache :: documents_cache where
  "scoped_cache =
     \<lparr>get_namespace = (\<lambda>d. Some scoped_namespace), get_model = (\<lambda>d. scoped_model)\<rparr>"

datatype example_exception = ValueError

definition example_run :: "nat \<Rightarrow> unit \<Rightarrow> (nat, example_exception) outcome" where
  "example_run l args = (if l = 2 then Raised ValueError else Returned (10 * l))"

section \<open>Termination of the unwrapping\<close>

lemma run_keywords_loop_length:
  "c \<in> set (run_keywords_loop h b arguments) \<Longrightarrow> length (snd c) < length arguments"
proof (induction h b arguments rule: run_keywords_loop.induct)
  case (1 h b)
  then show ?case by simp
next
  case (2 h b t arguments)
  show ?case
  proof (cases "tok_value t = ''AND''")
    case True
    with 2 show ?thesis by force
  next
    case False
    show ?thesis
    proof (cases "find (\<lambda>e. tok_value e = ''AND'') arguments")
      case None
      with 2 False show ?thesis by (force split: if_splits)
    next
      case (Some s)
      with 2 False show ?thesis by (force split: if_splits)
    qed
  qed
qed

lemma run_keyword_if_loop_length:
  "c \<in> set (run_keyword_if_loop h arguments) \<Longrightarrow> length (snd c) < length arguments"
proof (induction h arguments rule: run_keyword_if_loop.induct)
  case (1 h)
  then show ?case by simp
next
  case (2 h t arguments)
  show ?case
  proof (cases "tok_value t \<in> set [''ELSE'', ''ELSE IF'']")
    case True
    with 2 show ?thesis by force
  next
    case False
    show ?thesis
    proof (cases "find (\<lambda>e. tok_value e \<in> set [''ELSE'', ''ELSE IF'']) arguments")
      case None
      with 2 False show ?thesis by (force split: if_splits)
    next
      case (Some s)
      with 2 False show ?thesis by (force split: if_splits)
    qed
  qed
qed

lemma any_run_keyword_calls_length:
  assumes "any_run_keyword_calls h ns kw_token arguments = Inr calls" and "c \<in> set calls"
  shows "length (fst (snd c)) < length arguments"
  using assms
  by (auto simp: any_run_keyword_calls_def split: option.splits if_splits sum.splits bool.splits
      dest!: run_keywords_loop_length run_keyword_if_loop_length)

termination get_keyword_references_from_tokens
proof (relation "measure (\<lambda>x. case x of
            Inl (h, ns, kw_doc, n, kw_token, arguments, u) \<Rightarrow> 2 * length arguments + 1
          | Inr (h, ns, kw_doc, n, kw_token, arguments) \<Rightarrow> 2 * length arguments)",
       goal_cases)
  case 1
  show ?case by simp
next
  case 2
  show ?case by simp
next
  case (3 h ns kw_doc n kw_token arguments calls c)
  from 3 have "length (fst (snd c)) < length arguments"
    by (rule any_run_keyword_calls_length)
  then show ?case by (simp add: case_prod_beta)
qed

declare get_keyword_references_from_tokens.simps [simp del]
declare get_keyword_references_from_any_run_keyword.simps [simp del]


section \<open>The dispatchers\<close>

lemma awaitables_eq:
  "awaitables alive run its args = map (\<lambda>l. (l, run l args)) (filter alive its)"
  by (induction its) (simp_all add: deref_def)

lemma notify_eq:
  "notify alive call its args = map (\<lambda>l. (l, call l args)) (filter alive its)"
  by (induction its) (simp_all add: deref_def)

lemma yield_completed_ignore:
  "yield_completed True fs =
     map Inr (concat (map (\<lambda>f. case snd f of Returned r \<Rightarrow> [r] | Raised e \<Rightarrow> []) fs))"
proof (induction fs)
  case Nil
  show ?case by simp
next
  case (Cons f fs)
  then show ?case by (cases f, cases "snd f") simp_all
qed

lemma yield_completed_surface:
  "yield_completed False fs =
     map (\<lambda>f. case snd f of Returned r \<Rightarrow> Inr r | Raised e \<Rightarrow> Inl e) fs"
proof (induction fs)
  case Nil
  show ?case by simp
next
  case (Cons f fs)
  then show ?case by (cases f, cases "snd f") simp_all
qed

lemma mset_concat_map_perm:
  "mset xs = mset ys \<Longrightarrow> mset (concat (map f xs)) = mset (concat (map f ys))"
proof -
  assume "mset xs = mset ys"
  then have "image_mset (\<lambda>x. mset (f x)) (mset xs) = image_mset (\<lambda>x. mset (f x)) (mset ys)"
    by simp
  then have "sum_mset (image_mset (\<lambda>x. mset (f x)) (mset xs)) = sum_mset (image_mset (\<lambda>x. mset (f x)) (mset ys))"
    by simp
  then show ?thesis
    by (simp add: mset_concat sum_mset_sum_list [symmetric] comp_def del: sum_mset_sum_list)
qed

text \<open>
  Claim C5. In a concurrent-task dispatch whose futures complete in any order, with
  \<open>ignore_exceptions\<close> true the results are exactly the values of the live listeners
  that return (a listener that raises contributes nothing), and with
  \<open>ignore_exceptions\<close> false the results hold exactly one entry per live listener: the
  exception for one that raises, the value for one that returns. Either way the values
  of the other listeners are all there.
\<close>

theorem tasking_dispatch_failures:
  assumes "mset (as_completed (awaitables alive run its args)) = mset (awaitables alive run its args)"
  shows "mset (tasking_notify alive run as_completed its True args) =
           mset (concat (map (\<lambda>l. case run l args of Returned r \<Rightarrow> [Inr r] | Raised e \<Rightarrow> [])
                           (filter alive its)))
         \<and> mset (tasking_notify alive run as_completed its False args) =
           mset (map (\<lambda>l. case run l args of Returned r \<Rightarrow> Inr r | Raised e \<Rightarrow> Inl e)
                   (filter alive its))"
proof
  let ?fs = "awaitables alive run its args"
  let ?g = "\<lambda>f. case snd f of Returned r \<Rightarrow> [r] | Raised e \<Rightarrow> []"
  have "mset (tasking_notify alive run as_completed its True args) =
          mset (map Inr (concat (map ?g (as_completed ?fs))))"
    by (simp add: tasking_notify_def yield_completed_ignore)
  also have "\<dots> = image_mset Inr (mset (concat (map ?g (as_completed ?fs))))"
    by simp
  also have "mset (concat (map ?g (as_completed ?fs))) = mset (concat (map ?g ?fs))"
    using assms by (rule mset_concat_map_perm)
  also have "image_mset Inr (mset (concat (map ?g ?fs))) = mset (map Inr (concat (map ?g ?fs)))"
    by simp
  also have "map Inr (concat (map ?g ?fs)) =
      concat (map (\<lambda>l. case run l args of Returned r \<Rightarrow> [Inr r] | Raised e \<Rightarrow> []) (filter alive its))"
    by (simp add: awaitables_eq map_concat comp_def)
       (rule arg_cong [where f = concat], rule map_cong, auto split: outcome.splits)
  finally show "mset (tasking_notify alive run as_completed its True args) =
           mset (concat (map (\<lambda>l. case run l args of Returned r \<Rightarrow> [Inr r] | Raised e \<Rightarrow> [])
                           (filter alive its)))" .
next
  let ?fs = "awaitables alive run its args"
  let ?g = "\<lambda>f. case snd f of Returned r \<Rightarrow> Inr r | Raised e \<Rightarrow> Inl e"
  have "mset (map ?g (as_completed ?fs)) = mset (map ?g ?fs)"
    using assms by simp
  moreover have "map ?g ?fs =
      map (\<lambda>l. case run l args of Returned r \<Rightarrow> Inr r | Raised e \<Rightarrow> Inl e) (filter alive its)"
    by (simp add: awaitables_eq comp_def)
  ultimately show "mset (tasking_notify alive run as_completed its False args) =
           mset (map (\<lambda>l. case run l args of Returned r \<Rightarrow> Inr r | Raised e \<Rightarrow> Inl e)
                   (filter alive its))"
    by (simp add: tasking_notify_def yield_completed_surface)
qed


theorem tasking_dispatch_failures_witness:
  "mset (rev (awaitables (\<lambda>l. True) example_run [1, 2, 3] ())) =
     mset (awaitables (\<lambda>l. True) example_run [1, 2, 3] ())
   \<and> mset (tasking_notify (\<lambda>l. True) example_run rev [1, 2, 3] True ()) = {#Inr 10, Inr 30#}
   \<and> mset (tasking_notify (\<lambda>l. True) example_run rev [1, 2, 3] False ()) =
       {#Inr 10, Inl ValueError, Inr 30#}"
proof -
  have h: "mset (rev (awaitables (\<lambda>l. True) example_run [1, 2, 3] ())) =
             mset (awaitables (\<lambda>l. True) example_run [1, 2, 3] ())"
    by simp
  show ?thesis
    using h tasking_dispatch_failures
        [where as_completed = rev and alive = "\<lambda>l. True" and run = example_run
           and its = "[1, 2, 3]" and args = "()"]
    by (simp add: example_run_def)
qed

lemma run_ops_not_added:
  "Add l \<notin> set ops \<Longrightarrow> l \<notin> listeners s \<Longrightarrow> run_ops ops s = Inr s' \<Longrightarrow> l \<notin> listeners s'"
proof (induction ops s rule: run_ops.induct)
  case (1 self)
  then show ?case by simp
next
  case (2 k ops self)
  then show ?case by (auto simp: add_def)
next
  case (3 k ops self)
  then show ?case
    by (auto simp: remove_def set_remove_def split: sum.splits if_splits)
next
  case (4 k ops self)
  then show ?case
    by (auto simp: remove_listener_def set_remove_def split: sum.splits if_splits)
qed

lemma remove_absent: "l \<notin> listeners s \<Longrightarrow> remove l s = Inl KeyError"
  by (simp add: remove_def set_remove_def)

lemma remove_gone: "remove l s = Inr s' \<Longrightarrow> l \<notin> listeners s'"
  by (auto simp: remove_def set_remove_def split: if_splits)

lemma remove_listener_gone: "remove_listener l s = Inr s' \<Longrightarrow> l \<notin> listeners s'"
  by (auto simp: remove_listener_def set_remove_def split: if_splits)

text \<open>
  Claim C6. \<open>remove\<close> fails with the not-found error \<open>KeyError\<close> for a listener that
  was never added, and for one that has expired; and once \<open>remove\<close> has succeeded, no
  later dispatch (direct or concurrent) invokes the listener, whatever is added, removed
  or expires in between, as long as the listener itself is not added again.
\<close>

theorem remove_contract:
  "(Add l \<notin> set ops \<and> run_ops ops new_event = Inr s \<longrightarrow> remove l s = Inl KeyError)
   \<and> (remove_listener l s0 = Inr s1 \<and> Add l \<notin> set ops \<and> run_ops ops s1 = Inr s
        \<longrightarrow> remove l s = Inl KeyError)
   \<and> (remove l s0 = Inr s1 \<and> Add l \<notin> set ops \<and> run_ops ops s1 = Inr s \<and> set its = listeners s
        \<longrightarrow> l \<notin> fst ` set (notify alive call its args)
          \<and> l \<notin> fst ` set (awaitables alive run its args))"
proof (intro conjI impI)
  assume "Add l \<notin> set ops \<and> run_ops ops new_event = Inr s"
  then have "l \<notin> listeners s"
    using run_ops_not_added [of l ops new_event s] by (simp add: new_event_def)
  then show "remove l s = Inl KeyError" by (rule remove_absent)
next
  assume "remove_listener l s0 = Inr s1 \<and> Add l \<notin> set ops \<and> run_ops ops s1 = Inr s"
  then have "l \<notin> listeners s"
    using run_ops_not_added [of l ops s1 s] remove_listener_gone [of l s0 s1] by simp
  then show "remove l s = Inl KeyError" by (rule remove_absent)
next
  assume a: "remove l s0 = Inr s1 \<and> Add l \<notin> set ops \<and> run_ops ops s1 = Inr s \<and> set its = listeners s"
  then have "l \<notin> listeners s"
    using run_ops_not_added [of l ops s1 s] remove_gone [of l s0 s1] by simp
  with a have "l \<notin> set its" by simp
  then show "l \<notin> fst ` set (notify alive call its args)"
    by (auto simp: notify_eq)
  from \<open>l \<notin> set its\<close> show "l \<notin> fst ` set (awaitables alive run its args)"
    by (auto simp: awaitables_eq)
qed

theorem remove_contract_witness:
  "(Add (1::nat) \<notin> set [Add 2] \<and> run_ops [Add 2] new_event = Inr \<lparr>listeners = {2::nat}\<rparr>
      \<and> remove 1 \<lparr>listeners = {2::nat}\<rparr> = Inl KeyError)
   \<and> (remove_listener 1 \<lparr>listeners = {1, 2::nat}\<rparr> = Inr \<lparr>listeners = {2}\<rparr>
      \<and> run_ops [] \<lparr>listeners = {2::nat}\<rparr> = Inr \<lparr>listeners = {2}\<rparr>)
   \<and> (remove 1 \<lparr>listeners = {1, 2::nat}\<rparr> = Inr \<lparr>listeners = {2}\<rparr>
      \<and> set [2::nat] = listeners \<lparr>listeners = {2::nat}\<rparr>
      \<and> (1::nat) \<notin> fst ` set (notify (\<lambda>l. True) (\<lambda>l a. l + a) [2] (5::nat))
      \<and> notify (\<lambda>l. True) (\<lambda>l a. l + a) [2::nat] (5::nat) = [(2, 7)])"
proof -
  have a: "Add (1::nat) \<notin> set [Add 2] \<and> run_ops [Add 2] new_event = Inr \<lparr>listeners = {2::nat}\<rparr>"
    by (simp add: new_event_def add_def)
  have b: "remove_listener 1 \<lparr>listeners = {1, 2::nat}\<rparr> = Inr \<lparr>listeners = {2}\<rparr>"
    by (simp add: remove_listener_def set_remove_def)
  have c: "remove 1 \<lparr>listeners = {1, 2::nat}\<rparr> = Inr \<lparr>listeners = {2}\<rparr>"
    by (simp add: remove_def set_remove_def)
  have d: "run_ops [] \<lparr>listeners = {2::nat}\<rparr> = Inr \<lparr>listeners = {2}\<rparr>"
    by simp
  have e: "set [2::nat] = listeners \<lparr>listeners = {2::nat}\<rparr>" by simp
  show ?thesis
    using a b c d e
      remove_contract [of 1 "[Add 2]" "\<lparr>listeners = {2::nat}\<rparr>" "\<lparr>listeners = {1, 2::nat}\<rparr>"
        "\<lparr>listeners = {2::nat}\<rparr>" "[2]" "\<lambda>l. True" "\<lambda>l a. l + a" "5::nat" "\<lambda>l a. Returned l"]
    by (simp add: deref_def)
qed


lemma descriptor_get_again:
  assumes "descriptor_get d (Some a) st = (res, d', st')"
  shows "\<exists>r. res = Event_at r \<and> descriptor_event d' = Some r
           \<and> descriptor_get d' (Some b) st' = (Event_at r, d', st')"
  using assms
  by (auto simp: descriptor_get_def factory_def split: option.splits)

lemma add_through_listener:
  assumes "case descriptor_event d of None \<Rightarrow> True | Some r \<Rightarrow> r < length st"
    and "add_through d a l st = (d', st')"
  shows "\<exists>r. descriptor_event d' = Some r \<and> r < length st' \<and> l \<in> listeners (st' ! r)"
  using assms
  by (auto simp: add_through_def descriptor_get_def factory_def add_def nth_append
      split: option.splits)

text \<open>
  Claim C8. An access through the class returns the descriptor and creates nothing; the
  first access through an instance creates the dispatcher and stores it in the
  descriptor; every later access, through whichever instance, returns that same
  dispatcher object and changes nothing. So a live listener added through one instance
  is invoked by a dispatch made through any other instance.
\<close>

theorem descriptor_shared_event:
  "descriptor_get d None st = (Descriptor_itself, d, st)
   \<and> descriptor_get new_descriptor (Some a) st =
       (Event_at (length st), \<lparr>descriptor_event = Some (length st)\<rparr>, st @ [new_event])
   \<and> (descriptor_get d (Some a) st = (Event_at r, d', st')
        \<longrightarrow> descriptor_get d' (Some b) st' = (Event_at r, d', st'))
   \<and> ((case descriptor_event d of None \<Rightarrow> True | Some r \<Rightarrow> r < length st)
        \<and> add_through d a l st = (d1, st1) \<and> alive l
        \<and> (\<forall>e \<in> set st1. set (order_of (listeners e)) = listeners e)
        \<longrightarrow> (l, call l args) \<in> set (dispatch_through d1 b alive call order_of args st1))"
proof (intro conjI impI)
  show "descriptor_get d None st = (Descriptor_itself, d, st)"
    by (simp add: descriptor_get_def)
  show "descriptor_get new_descriptor (Some a) st =
       (Event_at (length st), \<lparr>descriptor_event = Some (length st)\<rparr>, st @ [new_event])"
    by (simp add: descriptor_get_def new_descriptor_def factory_def)
next
  assume "descriptor_get d (Some a) st = (Event_at r, d', st')"
  from descriptor_get_again [OF this, of b]
  show "descriptor_get d' (Some b) st' = (Event_at r, d', st')" by simp
next
  assume a: "(case descriptor_event d of None \<Rightarrow> True | Some r \<Rightarrow> r < length st)
        \<and> add_through d a l st = (d1, st1) \<and> alive l
        \<and> (\<forall>e \<in> set st1. set (order_of (listeners e)) = listeners e)"
  then obtain r where r: "descriptor_event d1 = Some r" "r < length st1" "l \<in> listeners (st1 ! r)"
    using add_through_listener [where d = d and st = st and a = a and l = l and d' = d1 and st' = st1] by blast
  then have "l \<in> set (order_of (listeners (st1 ! r)))"
    using a by simp
  then show "(l, call l args) \<in> set (dispatch_through d1 b alive call order_of args st1)"
    using a r by (simp add: dispatch_through_def descriptor_get_def notify_eq)
qed

theorem descriptor_shared_event_witness:
  "descriptor_get new_descriptor (Some ''a'') ([] :: nat event list) =
     (Event_at 0, \<lparr>descriptor_event = Some 0\<rparr>, [new_event])
   \<and> descriptor_get \<lparr>descriptor_event = Some 0\<rparr> (Some ''b'') [new_event :: nat event] =
     (Event_at 0, \<lparr>descriptor_event = Some 0\<rparr>, [new_event])
   \<and> add_through new_descriptor ''a'' (7::nat) [] =
     (\<lparr>descriptor_event = Some 0\<rparr>, [\<lparr>listeners = {7}\<rparr>])
   \<and> set (sorted_list_of_set (listeners \<lparr>listeners = {7::nat}\<rparr>)) = listeners \<lparr>listeners = {7::nat}\<rparr>
   \<and> (7, 8) \<in> set (dispatch_through \<lparr>descriptor_event = Some 0\<rparr> ''b'' (\<lambda>l. True) (\<lambda>l x. l + x)
                      sorted_list_of_set (1::nat) [\<lparr>listeners = {7::nat}\<rparr>])"
proof -
  have g: "descriptor_get new_descriptor (Some ''a'') ([] :: nat event list) =
     (Event_at 0, \<lparr>descriptor_event = Some 0\<rparr>, [new_event])"
    by (simp add: descriptor_get_def new_descriptor_def factory_def)
  have a: "add_through new_descriptor ''a'' (7::nat) [] =
     (\<lparr>descriptor_event = Some 0\<rparr>, [\<lparr>listeners = {7}\<rparr>])"
    by (simp add: add_through_def g add_def new_event_def)
  have w: "case descriptor_event new_descriptor of None \<Rightarrow> True | Some r \<Rightarrow> r < length ([] :: nat event list)"
    by (simp add: new_descriptor_def)
  have o: "\<forall>e \<in> set [\<lparr>listeners = {7::nat}\<rparr>]. set (sorted_list_of_set (listeners e)) = listeners e"
    by simp
  show ?thesis
    using g a w o
      descriptor_shared_event [where d = new_descriptor and st = "[] :: nat event list"
        and a = "''a''" and b = "''b''" and r = 0 and d' = "\<lparr>descriptor_event = Some 0\<rparr>"
        and st' = "[new_event]" and l = "7::nat" and ?d1.0 = "\<lparr>descriptor_event = Some 0\<rparr>"
        and ?st1.0 = "[\<lparr>listeners = {7::nat}\<rparr>]" and alive = "\<lambda>l. True"
        and order_of = sorted_list_of_set and call = "\<lambda>l x. l + x" and args = "1::nat"]
    by simp blast
qed

lemma aggregate_values:
  "aggregate (map Inr xs) (results, logged) = (results @ concat xs, logged)"
  by (induction xs arbitrary: results) simp_all

text \<open>
  Claim C10. The folding-range request calls its threading dispatcher without
  \<open>ignore_exceptions\<close>, so the default applies: no entry of the collected list is an
  exception, nothing is logged by the aggregator, and the aggregated result is the
  concatenation of the lists returned by the listeners that did not raise, in completion
  order.
\<close>

theorem folding_range_no_exception_entry:
  assumes "documents u = Some document"
  shows "(\<forall>x \<in> set (AsyncThreadingEvent_call alive run as_completed its None document). \<not> isl x)
         \<and> text_document_folding_range documents alive run as_completed its u =
             Inr (concat (concat (map (\<lambda>f. case snd f of Returned r \<Rightarrow> [r] | Raised e \<Rightarrow> [])
                                    (as_completed (awaitables alive run its document)))), [])"
  using assms
  by (auto simp: text_document_folding_range_def AsyncThreadingEvent_call_def
      threading_notify_def yield_completed_ignore aggregate_values)

theorem folding_range_no_exception_entry_witness:
  "(\<lambda>u. if u = ''file:///a.robot'' then Some () else None) ''file:///a.robot'' = Some ()
   \<and> text_document_folding_range (\<lambda>u. if u = ''file:///a.robot'' then Some () else None)
        (\<lambda>l. True)
        (\<lambda>l d. if l = (2::nat) then Raised ValueError else Returned [l, l + 1])
        rev [1, 2, 3] ''file:///a.robot''
      = Inr ([3, 4, 1, 2], [])"
  using folding_range_no_exception_entry
    [where documents = "\<lambda>u. if u = ''file:///a.robot'' then Some () else None"
       and u = "''file:///a.robot''" and document = "()" and alive = "\<lambda>l. True"
       and run = "\<lambda>l d. if l = (2::nat) then Raised ValueError else Returned [l, l + 1]"
       and as_completed = rev and its = "[1, 2, 3]"]
  by (simp add: deref_def)


section \<open>Reference search: what is accepted\<close>

lemma concat_results_Inr:
  "concat_results rs = Inr xs \<Longrightarrow> x \<in> set xs \<Longrightarrow> \<exists>r ys. r \<in> set rs \<and> r = Inr ys \<and> x \<in> set ys"
proof (induction rs arbitrary: xs rule: concat_results.induct)
  case 1
  then show ?case by simp
next
  case (2 e rs)
  then show ?case by simp
next
  case (3 zs rs)
  from "3.prems"(1) obtain ys where ys: "concat_results rs = Inr ys" and xs: "xs = zs @ ys"
    by (cases "concat_results rs") auto
  from "3.prems"(2) xs have "x \<in> set zs \<or> x \<in> set ys" by simp
  then show ?case
  proof
    assume "x \<in> set zs"
    then show ?thesis by auto
  next
    assume "x \<in> set ys"
    from "3.IH" [OF ys this] show ?thesis by auto
  qed
qed

lemma find_Some_set: "find P xs = Some x \<Longrightarrow> x \<in> set xs \<and> P x"
  by (induction xs) (auto split: if_splits)

lemma run_keywords_loop_tokens:
  "c \<in> set (run_keywords_loop h b arguments) \<Longrightarrow>
     fst c \<in> set arguments \<and> set (snd c) \<subseteq> set arguments"
proof (induction h b arguments rule: run_keywords_loop.induct)
  case (1 h b)
  then show ?case by simp
next
  case (2 h b t arguments)
  show ?case
  proof (cases "tok_value t = ''AND''")
    case True
    with 2 show ?thesis by force
  next
    case False
    show ?thesis
    proof (cases "find (\<lambda>e. tok_value e = ''AND'') arguments")
      case None
      with 2 False show ?thesis by (force split: if_splits)
    next
      case (Some s)
      with 2 False show ?thesis
        by (force split: if_splits dest: in_set_takeD in_set_dropD)
    qed
  qed
qed

lemma run_keyword_if_loop_tokens:
  "c \<in> set (run_keyword_if_loop h arguments) \<Longrightarrow>
     fst c \<in> set arguments \<and> set (snd c) \<subseteq> set arguments"
proof (induction h arguments rule: run_keyword_if_loop.induct)
  case (1 h)
  then show ?case by simp
next
  case (2 h t arguments)
  show ?case
  proof (cases "tok_value t \<in> set [''ELSE'', ''ELSE IF'']")
    case True
    with 2 show ?thesis by force
  next
    case False
    show ?thesis
    proof (cases "find (\<lambda>e. tok_value e \<in> set [''ELSE'', ''ELSE IF'']) arguments")
      case None
      with 2 False show ?thesis by (force split: if_splits)
    next
      case (Some s)
      with 2 False show ?thesis
        by (force split: if_splits dest: in_set_takeD in_set_dropD)
    qed
  qed
qed

lemma any_run_keyword_calls_cases:
  assumes "any_run_keyword_calls h ns kw_token arguments = Inr calls" and "c \<in> set calls"
  shows "(arguments \<noteq> [] \<and> c = (arguments ! 0, drop 1 arguments, False))
       \<or> (\<exists>k < length arguments. c = (arguments ! k, drop (k + 1) arguments, True))
       \<or> (fst c, fst (snd c)) \<in> set (run_keywords_loop h False arguments)
       \<or> (fst c, fst (snd c)) \<in> set (run_keyword_if_loop h (drop 1 arguments))"
  using assms
  by (auto simp: any_run_keyword_calls_def
      split: option.splits if_splits sum.splits bool.splits)

lemma any_run_keyword_calls_tokens:
  assumes "any_run_keyword_calls h ns kw_token arguments = Inr calls" and "c \<in> set calls"
  shows "fst c \<in> set arguments \<and> set (fst (snd c)) \<subseteq> set arguments"
proof -
  from any_run_keyword_calls_cases [OF assms]
  consider "arguments \<noteq> []" "c = (arguments ! 0, drop 1 arguments, False)"
    | k where "k < length arguments" "c = (arguments ! k, drop (k + 1) arguments, True)"
    | "(fst c, fst (snd c)) \<in> set (run_keywords_loop h False arguments)"
    | "(fst c, fst (snd c)) \<in> set (run_keyword_if_loop h (drop 1 arguments))"
    by blast
  then show ?thesis
  proof cases
    case 1
    then show ?thesis by (auto dest: in_set_dropD)
  next
    case 2
    then show ?thesis by (auto dest: in_set_dropD)
  next
    case 3
    from run_keywords_loop_tokens [OF this] show ?thesis by simp
  next
    case 4
    from run_keyword_if_loop_tokens [OF this] show ?thesis
      by (auto dest: in_set_dropD)
  qed
qed


lemma references_accepted:
  "get_keyword_references_from_tokens h ns kw_doc n kw_token arguments u = Inr locs \<Longrightarrow>
     loc \<in> set locs \<Longrightarrow>
     \<exists>tk \<in> set_option kw_token \<union> set arguments. accepted_use h ns kw_doc n tk loc"
  "get_keyword_references_from_any_run_keyword h ns kw_doc n kw_token arguments = Inr locs \<Longrightarrow>
     loc \<in> set locs \<Longrightarrow>
     \<exists>tk \<in> set arguments. accepted_use h ns kw_doc n tk loc"
proof (induction h ns kw_doc n kw_token arguments u and h ns kw_doc n kw_token arguments
    arbitrary: locs and locs
    rule: get_keyword_references_from_tokens_get_keyword_references_from_any_run_keyword.induct)
  case (1 h ns kw_doc n kw_token arguments u)
  obtain tk where tk: "kw_token = Some tk"
  proof (cases kw_token)
    case None
    have "get_keyword_references_from_tokens h ns kw_doc n None arguments u = Inr []"
      by (subst get_keyword_references_from_tokens.simps) (simp only: option.case)
    with "1.prems" None show ?thesis by simp
  next
    case (Some tk)
    then show ?thesis by (rule that)
  qed
  have nv: "is_not_variable_token h tk"
  proof (rule ccontr)
    assume "\<not> is_not_variable_token h tk"
    then have "get_keyword_references_from_tokens h ns kw_doc n (Some tk) arguments u = Inr []"
      by (subst get_keyword_references_from_tokens.simps) (simp only: option.case if_True not_False_eq_True)
    with "1.prems" tk show False by simp
  qed
  define kw_name where "kw_name = (if u then unescape h (tok_value tk) else tok_value tk)"
  define F where "F = (\<lambda>p.
                 if (case fst p of
                       None \<Rightarrow> False
                     | Some lib \<Rightarrow>
                         KeywordMatcher h lib \<notin> set (get_libraries_matchers ns)
                         \<and> KeywordMatcher h lib \<notin> set (get_resources_matchers ns))
                 then Inr []
                 else
                   (case snd p of
                      None \<Rightarrow> Inr []
                    | Some nm \<Rightarrow>
                        concat_results
                          [Inr (if KeywordMatcher h (name kw_doc) = KeywordMatcher h nm
                                   \<and> (case find_keyword ns kw_name of
                                         None \<Rightarrow> False
                                       | Some kw \<Rightarrow> KeywordDoc_eq h kw kw_doc)
                                then [Location (uri_from_path h (ns_source ns))
                                        (range_from_token_or_node h n tk)]
                                else []),
                           if KeywordMatcher h nm \<in> set (ALL_RUN_KEYWORDS_MATCHERS h)
                              \<and> arguments \<noteq> []
                           then get_keyword_references_from_any_run_keyword h ns kw_doc n
                                  (Some tk) arguments
                           else Inr []]))"
  have "get_keyword_references_from_tokens h ns kw_doc n (Some tk) arguments u =
          concat_results (map F (iter_over_keyword_names_and_owners h kw_name))"
    unfolding F_def kw_name_def
    by (subst get_keyword_references_from_tokens.simps)
       (simp only: option.case nv not_True_eq_False if_False)
  then have "concat_results (map F (iter_over_keyword_names_and_owners h kw_name)) = Inr locs"
    using "1.prems"(1) tk by simp
  from concat_results_Inr [OF this "1.prems"(2)]
  obtain r0 ys where "r0 \<in> set (map F (iter_over_keyword_names_and_owners h kw_name))"
    and r0: "r0 = Inr ys" and loc: "loc \<in> set ys"
    by blast
  then obtain p where p: "p \<in> set (iter_over_keyword_names_and_owners h kw_name)"
    and "F p = r0"
    by auto
  with r0 have Fp: "F p = Inr ys" by simp
  have nolib: "\<not> (case fst p of
                       None \<Rightarrow> False
                     | Some lib \<Rightarrow>
                         KeywordMatcher h lib \<notin> set (get_libraries_matchers ns)
                         \<and> KeywordMatcher h lib \<notin> set (get_resources_matchers ns))"
  proof
    assume "case fst p of
                       None \<Rightarrow> False
                     | Some lib \<Rightarrow>
                         KeywordMatcher h lib \<notin> set (get_libraries_matchers ns)
                         \<and> KeywordMatcher h lib \<notin> set (get_resources_matchers ns)"
    then have "F p = Inr []" unfolding F_def by (simp only: if_True)
    with Fp loc show False by simp
  qed
  obtain nm where nm: "snd p = Some nm"
  proof (cases "snd p")
    case None
    have "F p = Inr []" unfolding F_def by (simp only: nolib None if_False option.case)
    with Fp loc show ?thesis by simp
  next
    case (Some nm)
    then show ?thesis by (rule that)
  qed
  define direct where "direct = (if KeywordMatcher h (name kw_doc) = KeywordMatcher h nm
                                   \<and> (case find_keyword ns kw_name of
                                         None \<Rightarrow> False
                                       | Some kw \<Rightarrow> KeywordDoc_eq h kw kw_doc)
                                then [Location (uri_from_path h (ns_source ns))
                                        (range_from_token_or_node h n tk)]
                                else [])"
  define nested where "nested = (if KeywordMatcher h nm \<in> set (ALL_RUN_KEYWORDS_MATCHERS h)
                              \<and> arguments \<noteq> []
                           then get_keyword_references_from_any_run_keyword h ns kw_doc n
                                  (Some tk) arguments
                           else Inr [])"
  have "F p = concat_results [Inr direct, nested]"
    unfolding F_def direct_def nested_def
    by (simp only: nolib nm if_False option.case)
  with Fp have "concat_results [Inr direct, nested] = Inr ys"
    by simp
  from concat_results_Inr [OF this loc]
  obtain r zs where "r \<in> set [Inr direct, nested]" and rz: "r = Inr zs" "loc \<in> set zs"
    by blast
  then have "r = Inr direct \<or> r = nested" by simp
  with rz consider "loc \<in> set direct" | "nested = Inr zs"
    by blast
  then show ?case
  proof cases
    case 1
    then have m: "KeywordMatcher h (name kw_doc) = KeywordMatcher h nm"
      and f: "case find_keyword ns kw_name of
                None \<Rightarrow> False
              | Some kw \<Rightarrow> KeywordDoc_eq h kw kw_doc"
      and l: "loc = Location (uri_from_path h (ns_source ns)) (range_from_token_or_node h n tk)"
      unfolding direct_def by (simp_all split: if_splits)
    have "kw_name \<in> {tok_value tk, unescape h (tok_value tk)}"
      by (simp add: kw_name_def)
    moreover have "case snd p of None \<Rightarrow> False
                   | Some bare \<Rightarrow> KeywordMatcher h bare = KeywordMatcher h (name kw_doc)"
      using nm m by simp
    ultimately have "accepted_use h ns kw_doc n tk loc"
      unfolding accepted_use_def using l f p by blast
    then show ?thesis using tk by simp
  next
    case 2
    then have c: "KeywordMatcher h nm \<in> set (ALL_RUN_KEYWORDS_MATCHERS h) \<and> arguments \<noteq> []"
      unfolding nested_def using rz(2) by (cases "KeywordMatcher h nm \<in> set (ALL_RUN_KEYWORDS_MATCHERS h) \<and> arguments \<noteq> []") simp_all
    with 2 have r: "get_keyword_references_from_any_run_keyword h ns kw_doc n (Some tk) arguments = Inr zs"
      unfolding nested_def by simp
    have "\<exists>tk \<in> set arguments. accepted_use h ns kw_doc n tk loc"
      using "1.IH" [OF tk _ p [unfolded kw_name_def] nolib nm c r rz(2)] nv
      by simp
    then show ?thesis by blast
  qed
next
  case (2 h ns kw_doc n kw_token arguments)
  obtain calls where calls: "any_run_keyword_calls h ns kw_token arguments = Inr calls"
  proof (cases "any_run_keyword_calls h ns kw_token arguments")
    case (Inl e)
    have "get_keyword_references_from_any_run_keyword h ns kw_doc n kw_token arguments = Inl e"
      by (subst get_keyword_references_from_any_run_keyword.simps) (simp only: Inl sum.case)
    with "2.prems" show ?thesis by simp
  next
    case (Inr calls)
    then show ?thesis by (rule that)
  qed
  have "get_keyword_references_from_any_run_keyword h ns kw_doc n kw_token arguments =
          concat_results (map
            (\<lambda>c. get_keyword_references_from_tokens h ns kw_doc n
                   (Some (fst c)) (fst (snd c)) (snd (snd c))) calls)"
    by (subst get_keyword_references_from_any_run_keyword.simps) (simp only: calls sum.case)
  with "2.prems" have res: "concat_results (map
            (\<lambda>c. get_keyword_references_from_tokens h ns kw_doc n
                   (Some (fst c)) (fst (snd c)) (snd (snd c))) calls) = Inr locs"
    by simp
  from concat_results_Inr [OF res "2.prems"(2)]
  obtain r0 ys where "r0 \<in> set (map
            (\<lambda>c. get_keyword_references_from_tokens h ns kw_doc n
                   (Some (fst c)) (fst (snd c)) (snd (snd c))) calls)"
    and r0: "r0 = Inr ys" and loc: "loc \<in> set ys"
    by blast
  then obtain c where c: "c \<in> set calls"
    and "get_keyword_references_from_tokens h ns kw_doc n
                   (Some (fst c)) (fst (snd c)) (snd (snd c)) = r0"
    by auto
  with r0 have r: "get_keyword_references_from_tokens h ns kw_doc n
                   (Some (fst c)) (fst (snd c)) (snd (snd c)) = Inr ys"
    by simp
  from "2.IH" [OF calls c r loc]
  obtain tk where "tk \<in> set_option (Some (fst c)) \<union> set (fst (snd c))"
    and "accepted_use h ns kw_doc n tk loc"
    by auto
  then show ?case
    using any_run_keyword_calls_tokens [OF calls c] by auto
qed




lemma get_token_in_tokens: "get_token types n = Some t \<Longrightarrow> t \<in> set (tokens n)"
  by (auto simp: get_token_def dest: find_Some_set)

lemma get_tokens_subset: "set (get_tokens types n) \<subseteq> set (tokens n)"
  by (auto simp: get_tokens_def)

lemma keyword_references_of_node_accepted:
  assumes "keyword_references_of_node h ns kw_doc n = Inr locs" and "loc \<in> set locs"
  shows "\<exists>tk \<in> set (tokens n). accepted_use h ns kw_doc n tk loc"
proof -
  from assms obtain kw_token arguments u where
    r: "get_keyword_references_from_tokens h ns kw_doc n kw_token arguments u = Inr locs"
    and k: "set_option kw_token \<subseteq> set (tokens n)" and a: "set arguments \<subseteq> set (tokens n)"
  proof (cases "node_class n = KeywordCall")
    case True
    with assms(1) that [of "get_token [KEYWORD] n" "get_tokens [ARGUMENT] n" False]
    show ?thesis
      by (auto simp: keyword_references_of_node_def get_tokens_subset
          dest: get_token_in_tokens subsetD [OF get_tokens_subset])
  next
    case nc: False
    show ?thesis
    proof (cases "node_class n = Fixture")
      case True
      with nc assms(1) that [of "get_token [NAME] n" "get_tokens [ARGUMENT] n" False]
      show ?thesis
        by (auto simp: keyword_references_of_node_def get_tokens_subset
            dest: get_token_in_tokens subsetD [OF get_tokens_subset])
    next
      case nf: False
      show ?thesis
      proof (cases "node_class n \<in> {Template, TestTemplate}")
        case True
        with nc nf assms(1) that [of "get_token [NAME, ARGUMENT] n" "[]" False]
        show ?thesis
          by (auto simp: keyword_references_of_node_def dest: get_token_in_tokens)
      next
        case False
        with nc nf assms show ?thesis
          by (simp add: keyword_references_of_node_def)
      qed
    qed
  qed
  from references_accepted(1) [OF r assms(2)] k a show ?thesis by blast
qed

lemma find_keyword_references_in_namespace_loop_accepted:
  "find_keyword_references_in_namespace_loop h ns kw_doc nodes st = Inr st' \<Longrightarrow>
   loc \<in> set (result st') \<Longrightarrow>
   loc \<in> set (result st) \<or> (\<exists>n \<in> set nodes. \<exists>tk \<in> set (tokens n). accepted_use h ns kw_doc n tk loc)"
proof (induction nodes arbitrary: st)
  case Nil
  then show ?case by simp
next
  case (Cons n nodes)
  from Cons.prems(1) obtain locs where
    locs: "keyword_references_of_node h ns kw_doc n = Inr locs"
    and rest: "find_keyword_references_in_namespace_loop h ns kw_doc nodes
            ((check_canceled st)\<lparr>result := result (check_canceled st) @ locs\<rparr>) = Inr st'"
    by (cases "keyword_references_of_node h ns kw_doc n") simp_all
  from Cons.IH [OF rest Cons.prems(2)]
  consider "loc \<in> set (result st)" | "loc \<in> set locs"
    | "\<exists>n \<in> set nodes. \<exists>tk \<in> set (tokens n). accepted_use h ns kw_doc n tk loc"
    by (auto simp: check_canceled_def)
  then show ?case
  proof cases
    case 1
    then show ?thesis by simp
  next
    case 2
    from keyword_references_of_node_accepted [OF locs this] show ?thesis by simp
  next
    case 3
    then show ?thesis by simp
  qed
qed

lemma find_keyword_references_in_namespace_loop_checks:
  "find_keyword_references_in_namespace_loop h ns kw_doc nodes st = Inr st' \<Longrightarrow>
   check_canceled_calls st' = check_canceled_calls st + length nodes"
proof (induction nodes arbitrary: st)
  case Nil
  then show ?case by simp
next
  case (Cons n nodes)
  from Cons.prems(1) obtain locs where
    "find_keyword_references_in_namespace_loop h ns kw_doc nodes
            ((check_canceled st)\<lparr>result := result (check_canceled st) @ locs\<rparr>) = Inr st'"
    by (cases "keyword_references_of_node h ns kw_doc n") simp_all
  from Cons.IH [OF this] show ?case by (simp add: check_canceled_def)
qed

lemma in_concat_results_map:
  assumes "concat_results (map f xs) = Inr ys" and "y \<in> set ys"
  shows "\<exists>x zs. x \<in> set xs \<and> f x = Inr zs \<and> y \<in> set zs"
proof -
  from concat_results_Inr [OF assms]
  obtain r zs where "r \<in> set (map f xs)" and r: "r = Inr zs" and y: "y \<in> set zs"
    by blast
  then obtain x where "x \<in> set xs" and "f x = r"
    by auto
  with r y show ?thesis by blast
qed

lemma variable_references_of_node_resolved:
  assumes "variable_references_of_node h namespace variable doc_uri current_block n = Inr locs"
    and "loc \<in> set locs"
  shows "\<exists>ns. namespace = Some ns \<and> resolved_variable_use h ns variable doc_uri current_block n loc"
proof -
  from in_concat_results_map [OF assms [unfolded variable_references_of_node_def]]
  obtain tk zs where tk: "tk \<in> set (tokens n)"
    and z: "concat_results (map
          (sub_token_references h namespace variable doc_uri
             ((case current_block of None \<Rightarrow> [] | Some b \<Rightarrow> [b]) @ [n]) tk)
          (tokenize_variables h tk)) = Inr zs"
    and lz: "loc \<in> set zs"
    by blast
  from in_concat_results_map [OF z lz]
  obtain sub_token ws where sub: "sub_token \<in> set (tokenize_variables h tk)"
    and w: "sub_token_references h namespace variable doc_uri
             ((case current_block of None \<Rightarrow> [] | Some b \<Rightarrow> [b]) @ [n]) tk sub_token = Inr ws"
    and lw: "loc \<in> set ws"
    by blast
  from w lw obtain ns where "namespace = Some ns" and "tok_type sub_token = VARIABLE"
    and "case find_variable ns (tok_value sub_token)
                   ((case current_block of None \<Rightarrow> [] | Some b \<Rightarrow> [b]) @ [n])
                   (fst (range_from_token h tk)) of
              None \<Rightarrow> False
            | Some found_variable \<Rightarrow> VariableDefinition_eq h found_variable variable"
    and "loc = Location doc_uri (range_from_token h sub_token)"
    by (auto simp: sub_token_references_def split: if_splits option.splits)
  with tk sub show ?thesis
    unfolding resolved_variable_use_def by blast
qed

lemma next_block_enclosing_block:
  "next_block (enclosing_block visited) n = enclosing_block (visited @ [n])"
  by (auto simp: next_block_def enclosing_block_def split: option.splits)

lemma find_variable_references_in_file_loop_resolved:
  "find_variable_references_in_file_loop h namespace variable doc_uri nodes
     (enclosing_block visited) st = Inr st' \<Longrightarrow>
   loc \<in> set (result st') \<Longrightarrow>
   loc \<in> set (result st)
   \<or> (\<exists>ns. namespace = Some ns
         \<and> (\<exists>i < length nodes.
               resolved_variable_use h ns variable doc_uri
                 (enclosing_block (visited @ take (Suc i) nodes)) (nodes ! i) loc))"
proof (induction nodes arbitrary: st visited)
  case Nil
  then show ?case by simp
next
  case (Cons n nodes)
  let ?cb = "enclosing_block (visited @ [n])"
  have shift: "\<And>ns. (\<exists>i < length nodes.
               resolved_variable_use h ns variable doc_uri
                 (enclosing_block ((visited @ [n]) @ take (Suc i) nodes)) (nodes ! i) loc)
        \<Longrightarrow> (\<exists>i < length (n # nodes).
               resolved_variable_use h ns variable doc_uri
                 (enclosing_block (visited @ take (Suc i) (n # nodes))) ((n # nodes) ! i) loc)"
  proof -
    fix ns
    assume "\<exists>i < length nodes.
               resolved_variable_use h ns variable doc_uri
                 (enclosing_block ((visited @ [n]) @ take (Suc i) nodes)) (nodes ! i) loc"
    then obtain i where "i < length nodes"
      and "resolved_variable_use h ns variable doc_uri
                 (enclosing_block ((visited @ [n]) @ take (Suc i) nodes)) (nodes ! i) loc"
      by blast
    then have "Suc i < length (n # nodes)"
      and "resolved_variable_use h ns variable doc_uri
                 (enclosing_block (visited @ take (Suc (Suc i)) (n # nodes)))
                 ((n # nodes) ! Suc i) loc"
      by simp_all
    then show "\<exists>i < length (n # nodes).
               resolved_variable_use h ns variable doc_uri
                 (enclosing_block (visited @ take (Suc i) (n # nodes))) ((n # nodes) ! i) loc"
      by blast
  qed
  show ?case
  proof (cases "has_tokens n")
    case False
    with Cons.prems(1) have
      "find_variable_references_in_file_loop h namespace variable doc_uri nodes ?cb st = Inr st'"
      by (simp add: next_block_enclosing_block)
    from Cons.IH [OF this Cons.prems(2)] shift show ?thesis by blast
  next
    case True
    with Cons.prems(1) obtain locs where
      locs: "variable_references_of_node h namespace variable doc_uri ?cb n = Inr locs"
      and rest: "find_variable_references_in_file_loop h namespace variable doc_uri nodes
                  ?cb (st\<lparr>result := result st @ locs\<rparr>) = Inr st'"
      by (cases "variable_references_of_node h namespace variable doc_uri ?cb n")
         (simp_all add: next_block_enclosing_block)
    from Cons.IH [OF rest Cons.prems(2)]
    consider "loc \<in> set (result st)" | "loc \<in> set locs"
      | "\<exists>ns. namespace = Some ns
         \<and> (\<exists>i < length nodes.
               resolved_variable_use h ns variable doc_uri
                 (enclosing_block ((visited @ [n]) @ take (Suc i) nodes)) (nodes ! i) loc)"
      by auto
    then show ?thesis
    proof cases
      case 1
      then show ?thesis by simp
    next
      case 2
      from variable_references_of_node_resolved [OF locs this]
      obtain ns where "namespace = Some ns"
        and "resolved_variable_use h ns variable doc_uri
               (enclosing_block (visited @ take (Suc 0) (n # nodes))) ((n # nodes) ! 0) loc"
        by auto
      then show ?thesis by blast
    next
      case 3
      with shift show ?thesis by blast
    qed
  qed
qed

lemma find_variable_references_in_file_loop_checks:
  "find_variable_references_in_file_loop h namespace variable doc_uri nodes current_block st = Inr st' \<Longrightarrow>
   check_canceled_calls st' = check_canceled_calls st"
proof (induction nodes arbitrary: st current_block)
  case Nil
  then show ?case by simp
next
  case (Cons n nodes)
  show ?case
  proof (cases "has_tokens n")
    case False
    with Cons.prems have
      "find_variable_references_in_file_loop h namespace variable doc_uri nodes
         (next_block current_block n) st = Inr st'"
      by simp
    from Cons.IH [OF this] show ?thesis .
  next
    case True
    with Cons.prems obtain locs where
      "find_variable_references_in_file_loop h namespace variable doc_uri nodes
                  (next_block current_block n) (st\<lparr>result := result st @ locs\<rparr>) = Inr st'"
      by (cases "variable_references_of_node h namespace variable doc_uri
               (next_block current_block n) n") simp_all
    from Cons.IH [OF this] show ?thesis by simp
  qed
qed

text \<open>
  Claim C1 says that a use is accepted only when the definition resolved again is the
  identical object as the target. The code compares with \<open>==\<close>: where the class compares
  field by field, a definition that is another object than the target and has equal
  fields is accepted, for a keyword and for a variable.
\<close>

theorem equal_definition_of_another_object_is_accepted:
  "map_option obj_id
       (find_keyword (example_namespace [(user_keyword ''KwA'' ''/ws/a.resource'')\<lparr>obj_id := 1\<rparr>])
          ''KwA'') = Some 1
   \<and> obj_id ((user_keyword ''KwA'' ''/ws/a.resource'')\<lparr>obj_id := 2\<rparr>) = 2
   \<and> find_keyword_references_in_namespace example_helpers
       (example_namespace [(user_keyword ''KwA'' ''/ws/a.resource'')\<lparr>obj_id := 1\<rparr>])
       ((user_keyword ''KwA'' ''/ws/a.resource'')\<lparr>obj_id := 2\<rparr>)
     = Inr \<lparr>result = [Location ''file:///ws/t.robot'' ((2, 4), 2, 7),
                       Location ''file:///ws/t.robot'' ((6, 4), 6, 8)],
            check_canceled_calls = 4\<rparr>
   \<and> map_option var_obj_id
       (find_variable scoped_namespace ''${x}'' [scoped_model ! 1, scoped_model ! 2] (2, 11))
     = Some 2
   \<and> var_obj_id ((example_variable 2)\<lparr>var_obj_id := 9\<rparr>) = 9
   \<and> find_variable_references_in_file example_helpers scoped_cache example_workspace
       ((example_variable 2)\<lparr>var_obj_id := 9\<rparr>) ''/ws/t.robot''
     = Inr \<lparr>result = [Location ''file:///ws/t.robot'' ((2, 11), 2, 15)],
            check_canceled_calls = 0\<rparr>"
  by code_simp

text \<open>
  Claim C1, amended. In the search over one file, every location that the keyword walk
  returns is the place of a token of a node of that file whose name matches the target's
  declared name and is resolved by the file's namespace to a definition that compares
  equal (\<open>==\<close>) to the target; every location that the variable walk returns is the place
  of a variable reference embedded in a token of a node, which the namespace resolves,
  through the test case or keyword that encloses the node and the node itself, to a
  definition that compares equal to the target variable. A name that resolves to a
  definition comparing unequal to the target, same-named or not, is never returned.
\<close>

theorem accepted_only_when_resolved_equal_to_target:
  "(find_keyword_references_in_namespace h ns kw_doc = Inr st1 \<and> loc1 \<in> set (result st1)
      \<longrightarrow> (\<exists>n \<in> set (model ns). \<exists>tk \<in> set (tokens n). accepted_use h ns kw_doc n tk loc1))
   \<and> (find_variable_references_in_file h cache parent variable file = Inr st2
        \<and> loc2 \<in> set (result st2)
      \<longrightarrow> (\<exists>ns2. get_namespace cache (get_or_open_document parent file) = Some ns2
            \<and> (\<exists>i < length (get_model cache (get_or_open_document parent file)).
                  resolved_variable_use h ns2 variable
                    (uri (get_or_open_document parent file))
                    (enclosing_block
                       (take (Suc i) (get_model cache (get_or_open_document parent file))))
                    (get_model cache (get_or_open_document parent file) ! i) loc2)))"
proof (intro conjI impI)
  assume a: "find_keyword_references_in_namespace h ns kw_doc = Inr st1 \<and> loc1 \<in> set (result st1)"
  then have "find_keyword_references_in_namespace_loop h ns kw_doc (model ns)
       \<lparr>result = [], check_canceled_calls = 0\<rparr> = Inr st1"
    by (simp add: find_keyword_references_in_namespace_def)
  from find_keyword_references_in_namespace_loop_accepted [OF this, of loc1] a
  show "\<exists>n \<in> set (model ns). \<exists>tk \<in> set (tokens n). accepted_use h ns kw_doc n tk loc1"
    by simp
next
  let ?doc = "get_or_open_document parent file"
  assume a: "find_variable_references_in_file h cache parent variable file = Inr st2
        \<and> loc2 \<in> set (result st2)"
  have "enclosing_block [] = None"
    by (simp add: enclosing_block_def)
  with a have "find_variable_references_in_file_loop h
       (get_namespace cache ?doc) variable (uri ?doc) (get_model cache ?doc) (enclosing_block [])
       \<lparr>result = [], check_canceled_calls = 0\<rparr> = Inr st2"
    by (simp add: find_variable_references_in_file_def)
  from find_variable_references_in_file_loop_resolved [OF this, of loc2] a
  show "\<exists>ns2. get_namespace cache ?doc = Some ns2
            \<and> (\<exists>i < length (get_model cache ?doc).
                  resolved_variable_use h ns2 variable (uri ?doc)
                    (enclosing_block (take (Suc i) (get_model cache ?doc)))
                    (get_model cache ?doc ! i) loc2)"
    by simp
qed

theorem accepted_only_when_resolved_equal_to_target_witness:
  "find_keyword_references_in_namespace example_helpers (example_namespace example_keywords)
       (user_keyword ''KwA'' ''/ws/a.resource'')
     = Inr \<lparr>result = [Location ''file:///ws/t.robot'' ((2, 4), 2, 7),
                       Location ''file:///ws/t.robot'' ((6, 4), 6, 8)],
            check_canceled_calls = 4\<rparr>
   \<and> (\<exists>n \<in> set (model (example_namespace example_keywords)). \<exists>tk \<in> set (tokens n).
         accepted_use example_helpers (example_namespace example_keywords)
           (user_keyword ''KwA'' ''/ws/a.resource'') n tk
           (Location ''file:///ws/t.robot'' ((6, 4), 6, 8)))
   \<and> find_variable_references_in_file example_helpers scoped_cache example_workspace
       (example_variable 2) ''/ws/t.robot''
     = Inr \<lparr>result = [Location ''file:///ws/t.robot'' ((2, 11), 2, 15)],
            check_canceled_calls = 0\<rparr>
   \<and> (\<exists>ns2. get_namespace scoped_cache (get_or_open_document example_workspace ''/ws/t.robot'')
                = Some ns2
          \<and> (\<exists>i < length (get_model scoped_cache
                              (get_or_open_document example_workspace ''/ws/t.robot'')).
                resolved_variable_use example_helpers ns2 (example_variable 2)
                  (uri (get_or_open_document example_workspace ''/ws/t.robot''))
                  (enclosing_block
                     (take (Suc i)
                        (get_model scoped_cache
                           (get_or_open_document example_workspace ''/ws/t.robot''))))
                  (get_model scoped_cache
                     (get_or_open_document example_workspace ''/ws/t.robot'') ! i)
                  (Location ''file:///ws/t.robot'' ((2, 11), 2, 15))))"
proof -
  have k: "find_keyword_references_in_namespace example_helpers (example_namespace example_keywords)
       (user_keyword ''KwA'' ''/ws/a.resource'')
     = Inr \<lparr>result = [Location ''file:///ws/t.robot'' ((2, 4), 2, 7),
                       Location ''file:///ws/t.robot'' ((6, 4), 6, 8)],
            check_canceled_calls = 4\<rparr>"
    by code_simp
  have v: "find_variable_references_in_file example_helpers scoped_cache example_workspace
       (example_variable 2) ''/ws/t.robot''
     = Inr \<lparr>result = [Location ''file:///ws/t.robot'' ((2, 11), 2, 15)],
            check_canceled_calls = 0\<rparr>"
    by code_simp
  have kl: "Location ''file:///ws/t.robot'' ((6, 4), 6, 8)
      \<in> set (result \<lparr>result = [Location ''file:///ws/t.robot'' ((2, 4), 2, 7),
                       Location ''file:///ws/t.robot'' ((6, 4), 6, 8)],
            check_canceled_calls = 4\<rparr>)"
    by simp
  have vl: "Location ''file:///ws/t.robot'' ((2, 11), 2, 15)
      \<in> set (result \<lparr>result = [Location ''file:///ws/t.robot'' ((2, 11), 2, 15)],
            check_canceled_calls = 0\<rparr>)"
    by simp
  note t = accepted_only_when_resolved_equal_to_target
      [where h = example_helpers and ns = "example_namespace example_keywords"
         and kw_doc = "user_keyword ''KwA'' ''/ws/a.resource''"
         and ?st1.0 = "\<lparr>result = [Location ''file:///ws/t.robot'' ((2, 4), 2, 7),
                       Location ''file:///ws/t.robot'' ((6, 4), 6, 8)],
            check_canceled_calls = 4\<rparr>"
         and ?loc1.0 = "Location ''file:///ws/t.robot'' ((6, 4), 6, 8)"
         and cache = scoped_cache and parent = example_workspace
         and variable = "example_variable 2" and ?file = "''/ws/t.robot''"
         and ?st2.0 = "\<lparr>result = [Location ''file:///ws/t.robot'' ((2, 11), 2, 15)],
            check_canceled_calls = 0\<rparr>"
         and ?loc2.0 = "Location ''file:///ws/t.robot'' ((2, 11), 2, 15)"]
  from t k kl have c1: "\<exists>n \<in> set (model (example_namespace example_keywords)). \<exists>tk \<in> set (tokens n).
         accepted_use example_helpers (example_namespace example_keywords)
           (user_keyword ''KwA'' ''/ws/a.resource'') n tk
           (Location ''file:///ws/t.robot'' ((6, 4), 6, 8))"
    by blast
  from t v vl have c2: "\<exists>ns2. get_namespace scoped_cache (get_or_open_document example_workspace ''/ws/t.robot'')
                = Some ns2
          \<and> (\<exists>i < length (get_model scoped_cache
                              (get_or_open_document example_workspace ''/ws/t.robot'')).
                resolved_variable_use example_helpers ns2 (example_variable 2)
                  (uri (get_or_open_document example_workspace ''/ws/t.robot''))
                  (enclosing_block
                     (take (Suc i)
                        (get_model scoped_cache
                           (get_or_open_document example_workspace ''/ws/t.robot''))))
                  (get_model scoped_cache
                     (get_or_open_document example_workspace ''/ws/t.robot'') ! i)
                  (Location ''file:///ws/t.robot'' ((2, 11), 2, 15)))"
    by blast
  from k v c1 c2 show ?thesis by blast
qed

text \<open>
  Two keywords of one name and different sources, the namespace resolving the name to the
  other one: no use is returned. The variable of the keyword block: only the use inside
  the keyword is returned, not the one in the test case nor the one outside both.
\<close>

lemma same_name_other_definition_is_no_match:
  "find_keyword_references_in_namespace example_helpers
       (example_namespace [user_keyword ''KwA'' ''/ws/b.resource'', user_keyword ''KwA'' ''/ws/a.resource''])
       (user_keyword ''KwA'' ''/ws/a.resource'')
     = Inr \<lparr>result = [], check_canceled_calls = 4\<rparr>
   \<and> find_variable_references_in_file example_helpers scoped_cache example_workspace
       (example_variable 6) ''/ws/t.robot''
     = Inr \<lparr>result = [Location ''file:///ws/t.robot'' ((6, 11), 6, 15)],
            check_canceled_calls = 0\<rparr>"
  by code_simp



subsection \<open>Unwrapping\<close>

text \<open>Where the guard lets the branch through, the claim's shape holds.\<close>

lemma conditional_wrapper_calls:
  assumes "is_not_variable_token h tk" and "find_keyword ns (tok_value tk) = Some kw"
    and "is_any_run_keyword kw" and "\<not> is_run_keyword kw"
    and "is_run_keyword_with_condition kw"
    and "run_keyword_condition_count kw < length arguments" and "1 < length arguments"
    and "is_not_variable_token h (arguments ! 1)"
  shows "any_run_keyword_calls h ns (Some tk) arguments =
           Inr [(arguments ! run_keyword_condition_count kw,
                 drop (run_keyword_condition_count kw + 1) arguments, True)]"
  using assms by (simp add: any_run_keyword_calls_def)

text \<open>
  Claim C2. The claim takes argument \<open>N\<close> of a conditional wrapper as the nested
  keyword name whenever there are more than \<open>N\<close> arguments. The guard of the branch
  reads \<open>arguments[1]\<close>, not \<open>arguments[N]\<close>: for a wrapper with two condition
  arguments whose second condition is a variable, nothing is unwrapped and the use of the
  nested keyword is not found, although the search applied to argument 2 and the arguments
  after it finds it, and although the same call with a literal second condition is
  unwrapped.
\<close>

theorem conditional_wrapper_guard_reads_argument_1:
  "any_run_keyword_calls example_helpers (example_namespace example_keywords)
       (Some (tok KEYWORD ''Wait Until Keyword Succeeds'' 3 4))
       [tok ARGUMENT ''3x'' 3 35, tok ARGUMENT ''${delay}'' 3 41, tok ARGUMENT ''KwA'' 3 53]
     = Inr []
   \<and> get_keyword_references_from_tokens example_helpers (example_namespace example_keywords)
       (user_keyword ''KwA'' ''/ws/a.resource'')
       \<lparr>node_class = KeywordCall, has_tokens = True, tokens = []\<rparr>
       (Some (tok KEYWORD ''Wait Until Keyword Succeeds'' 3 4))
       [tok ARGUMENT ''3x'' 3 35, tok ARGUMENT ''${delay}'' 3 41, tok ARGUMENT ''KwA'' 3 53] False
     = Inr []
   \<and> get_keyword_references_from_tokens example_helpers (example_namespace example_keywords)
       (user_keyword ''KwA'' ''/ws/a.resource'')
       \<lparr>node_class = KeywordCall, has_tokens = True, tokens = []\<rparr>
       (Some (tok ARGUMENT ''KwA'' 3 53)) [] True
     = Inr [Location ''file:///ws/t.robot'' ((2, 53), 2, 56)]
   \<and> get_keyword_references_from_tokens example_helpers (example_namespace example_keywords)
       (user_keyword ''KwA'' ''/ws/a.resource'')
       \<lparr>node_class = KeywordCall, has_tokens = True, tokens = []\<rparr>
       (Some (tok KEYWORD ''Wait Until Keyword Succeeds'' 3 4))
       [tok ARGUMENT ''3x'' 3 35, tok ARGUMENT ''2s'' 3 41, tok ARGUMENT ''KwA'' 3 53] False
     = Inr [Location ''file:///ws/t.robot'' ((2, 53), 2, 56)]"
  by code_simp

text \<open>Without a separator every token that is no variable is a nested invocation with no arguments.\<close>

lemma run_keywords_loop_no_separator:
  "\<forall>t \<in> set arguments. tok_value t \<noteq> ''AND'' \<Longrightarrow>
   run_keywords_loop h False arguments =
     map (\<lambda>t. (t, [])) (filter (is_not_variable_token h) arguments)"
proof (induction arguments)
  case Nil
  then show ?case by simp
next
  case (Cons t arguments)
  then have "find (\<lambda>e. tok_value e = ''AND'') arguments = None"
    by (simp add: find_None_iff)
  with Cons show ?case by simp
qed

text \<open>
  Claim C3. The claim says that \<open>Run Keywords  KwA  AND  KwB  arg1\<close> unwraps to exactly
  two nested invocations. After the last separator the loop takes the rest as the
  arguments of the segment but does not consume it, so it goes on through the segment's
  arguments: the call unwraps to three nested invocations, the third being \<open>arg1\<close>
  as a keyword name; and in \<open>Run Keywords  KwA  AND  Log  KwB\<close> the argument of
  \<open>Log\<close> is returned as a use of the keyword \<open>KwB\<close>.
\<close>

theorem run_keywords_last_segment:
  "any_run_keyword_calls example_helpers (example_namespace example_keywords)
       (Some (tok KEYWORD ''Run Keywords'' 3 4))
       [tok ARGUMENT ''KwA'' 3 20, tok ARGUMENT ''AND'' 3 27, tok ARGUMENT ''KwB'' 3 34,
        tok ARGUMENT ''arg1'' 3 41]
     = Inr [(tok ARGUMENT ''KwA'' 3 20, [], True),
            (tok ARGUMENT ''KwB'' 3 34, [tok ARGUMENT ''arg1'' 3 41], True),
            (tok ARGUMENT ''arg1'' 3 41, [], True)]
   \<and> get_keyword_references_from_tokens example_helpers (example_namespace example_keywords)
       (user_keyword ''KwB'' ''/ws/a.resource'')
       \<lparr>node_class = KeywordCall, has_tokens = True, tokens = []\<rparr>
       (Some (tok KEYWORD ''Run Keywords'' 3 4))
       [tok ARGUMENT ''KwA'' 3 20, tok ARGUMENT ''AND'' 3 27, tok ARGUMENT ''Log'' 3 34,
        tok ARGUMENT ''KwB'' 3 41] False
     = Inr [Location ''file:///ws/t.robot'' ((2, 41), 2, 44)]"
  by code_simp

text \<open>
  Claim C4. The claim's own example unwraps to the three invocations it names. But a
  group that no marker follows, such as the terminal \<open>ELSE\<close> group, gets no arguments
  and is not consumed: in \<open>Run Keyword If  ${cond}  KwA  ELSE  Log  KwB\<close> the group
  \<open>Log  KwB\<close> becomes two nested invocations without arguments, and the argument of
  \<open>Log\<close> is returned as a use of the keyword \<open>KwB\<close>.
\<close>

theorem run_keyword_if_last_group:
  "any_run_keyword_calls example_helpers (example_namespace example_keywords)
       (Some (tok KEYWORD ''Run Keyword If'' 3 4))
       [tok ARGUMENT ''${cond}'' 3 22, tok ARGUMENT ''KwA'' 3 33, tok ARGUMENT ''ELSE IF'' 3 40,
        tok ARGUMENT ''${cond2}'' 3 51, tok ARGUMENT ''KwB'' 3 63, tok ARGUMENT ''ELSE'' 3 70,
        tok ARGUMENT ''KwC'' 3 78]
     = Inr [(tok ARGUMENT ''KwA'' 3 33, [], True), (tok ARGUMENT ''KwB'' 3 63, [], True),
            (tok ARGUMENT ''KwC'' 3 78, [], True)]
   \<and> any_run_keyword_calls example_helpers (example_namespace example_keywords)
       (Some (tok KEYWORD ''Run Keyword If'' 3 4))
       [tok ARGUMENT ''${cond}'' 3 22, tok ARGUMENT ''KwA'' 3 33, tok ARGUMENT ''ELSE'' 3 40,
        tok ARGUMENT ''Log'' 3 48, tok ARGUMENT ''KwB'' 3 55]
     = Inr [(tok ARGUMENT ''KwA'' 3 33, [], True), (tok ARGUMENT ''Log'' 3 48, [], True),
            (tok ARGUMENT ''KwB'' 3 55, [], True)]
   \<and> get_keyword_references_from_tokens example_helpers (example_namespace example_keywords)
       (user_keyword ''KwB'' ''/ws/a.resource'')
       \<lparr>node_class = KeywordCall, has_tokens = True, tokens = []\<rparr>
       (Some (tok KEYWORD ''Run Keyword If'' 3 4))
       [tok ARGUMENT ''${cond}'' 3 22, tok ARGUMENT ''KwA'' 3 33, tok ARGUMENT ''ELSE'' 3 40,
        tok ARGUMENT ''Log'' 3 48, tok ARGUMENT ''KwB'' 3 55] False
     = Inr [Location ''file:///ws/t.robot'' ((2, 55), 2, 58)]"
  by code_simp

subsection \<open>Cancellation\<close>

text \<open>
  Claim C7. The claim says that both walks check cancellation at every node. The keyword
  walk calls \<open>check_canceled\<close> once per node (four calls on the four nodes of the
  example file); the variable walk over the same four nodes calls it not once.
\<close>

theorem variable_walk_never_checks_cancellation:
  "length example_model = 4
   \<and> find_keyword_references_in_namespace example_helpers (example_namespace example_keywords)
       (user_keyword ''KwA'' ''/ws/a.resource'')
     = Inr \<lparr>result = [Location ''file:///ws/t.robot'' ((2, 4), 2, 7),
                       Location ''file:///ws/t.robot'' ((6, 4), 6, 8)],
            check_canceled_calls = 4\<rparr>
   \<and> get_model example_cache (get_or_open_document example_workspace ''/ws/t.robot'')
     = example_model
   \<and> find_variable_references_in_file example_helpers example_cache example_workspace
       (example_variable 2) ''/ws/t.robot''
     = Inr \<lparr>result = [Location ''file:///ws/t.robot'' ((2, 11), 2, 15)],
            check_canceled_calls = 0\<rparr>"
  by code_simp

subsection \<open>Absent prerequisites\<close>

lemma find_keyword_references_not_None:
  "get_namespace cache d = Some ns \<Longrightarrow> find_keyword_references h cache parent d kw_doc \<noteq> None"
  by (simp add: find_keyword_references_def split: option.splits)

lemma return_spliced_Some: "ys \<noteq> None \<Longrightarrow> return_spliced xs ys \<noteq> Inl TypeError"
  by (auto simp: return_spliced_def splice_def)

lemma references_of_found_keyword_no_TypeError:
  "get_namespace cache d = Some ns \<Longrightarrow>
   references_of_found_keyword h cache parent d ctx found \<noteq> Inl TypeError"
  by (auto simp: references_of_found_keyword_def
      intro!: return_spliced_Some find_keyword_references_not_None
      split: option.splits prod.splits)

text \<open>
  Claim C9 says that the entry points return \<open>None\<close> for every document whose
  namespace is absent, and that the construct handlers fail at the splice in that case.
  A document with neither an owning workspace folder nor a namespace: the folder is
  looked up first and the entry points return the empty list. A document with an owning
  folder and no namespace: the entry points return \<open>None\<close>, but every construct
  handler looks the namespace up itself first and returns the absent result \<open>None\<close>;
  none fails.
\<close>

theorem namespace_absent_document_results:
  "get_workspace_folder no_workspace (uri example_document) = None
   \<and> get_namespace empty_cache example_document = None
   \<and> find_keyword_references example_helpers empty_cache no_workspace example_document
       (user_keyword ''KwA'' ''/ws/a.resource'') = Some []
   \<and> find_variable_references example_helpers empty_cache no_workspace example_document
       (example_variable 2) = Some []
   \<and> get_workspace_folder example_workspace (uri example_document) = Some ''/ws''
   \<and> find_keyword_references example_helpers empty_cache example_workspace example_document
       (user_keyword ''KwA'' ''/ws/a.resource'') = None
   \<and> references_KeywordName example_helpers empty_cache example_workspace keyword_name_node
       example_document (9, 0) \<lparr>include_declaration = True\<rparr> = Inr None
   \<and> references_KeywordCall example_helpers empty_cache example_workspace (example_model ! 1)
       example_document (2, 4) \<lparr>include_declaration = True\<rparr> = Inr None
   \<and> references_Fixture example_helpers empty_cache example_workspace fixture_node
       example_document (1, 15) \<lparr>include_declaration = True\<rparr> = Inr None
   \<and> references_Template_or_TestTemplate example_helpers empty_cache example_workspace
       template_node example_document (1, 18) \<lparr>include_declaration = True\<rparr> = Inr None"
  by code_simp

text \<open>
  Claim C9, amended. For a document with no owning workspace folder both entry points
  return the empty list; for a document that has an owning folder and no namespace they
  return \<open>None\<close>, although declared to return a list. The construct handlers that
  splice the result into a list look the namespace up themselves first: for a document
  whose namespace is absent each returns the absent result \<open>None\<close>, and none of them
  ever fails with the \<open>TypeError\<close> of splicing \<open>None\<close>.
\<close>

theorem absent_prerequisites:
  "(get_workspace_folder parent (uri d1) = None
      \<longrightarrow> find_keyword_references h cache parent d1 kw_doc = Some []
        \<and> find_variable_references h cache parent d1 variable = Some [])
   \<and> (get_workspace_folder parent (uri d2) = Some folder \<and> get_namespace cache d2 = None
      \<longrightarrow> find_keyword_references h cache parent d2 kw_doc = None
        \<and> find_variable_references h cache parent d2 variable = None
        \<and> references_KeywordName h cache parent n d2 pos ctx = Inr None
        \<and> references_KeywordCall h cache parent n d2 pos ctx = Inr None
        \<and> references_Fixture h cache parent n d2 pos ctx = Inr None
        \<and> references_Template_or_TestTemplate h cache parent n d2 pos ctx = Inr None)
   \<and> references_KeywordName h cache parent n d3 pos ctx \<noteq> Inl TypeError
   \<and> references_KeywordCall h cache parent n d3 pos ctx \<noteq> Inl TypeError
   \<and> references_Fixture h cache parent n d3 pos ctx \<noteq> Inl TypeError
   \<and> references_Template_or_TestTemplate h cache parent n d3 pos ctx \<noteq> Inl TypeError"
proof (intro conjI impI)
  assume "get_workspace_folder parent (uri d1) = None"
  then show "find_keyword_references h cache parent d1 kw_doc = Some []"
    and "find_variable_references h cache parent d1 variable = Some []"
    by (simp_all add: find_keyword_references_def find_variable_references_def)
next
  assume a: "get_workspace_folder parent (uri d2) = Some folder \<and> get_namespace cache d2 = None"
  then show "find_keyword_references h cache parent d2 kw_doc = None"
    and "find_variable_references h cache parent d2 variable = None"
    by (simp_all add: find_keyword_references_def find_variable_references_def)
  from a show "references_KeywordName h cache parent n d2 pos ctx = Inr None"
    by (simp add: references_KeywordName_def)
  from a show "references_KeywordCall h cache parent n d2 pos ctx = Inr None"
    by (simp add: references_KeywordCall_def)
  from a show "references_Fixture h cache parent n d2 pos ctx = Inr None"
    by (simp add: references_Fixture_def)
  from a show "references_Template_or_TestTemplate h cache parent n d2 pos ctx = Inr None"
    by (simp add: references_Template_or_TestTemplate_def split: option.splits)
next
  show "references_KeywordName h cache parent n d3 pos ctx \<noteq> Inl TypeError"
    by (auto simp: references_KeywordName_def
        intro!: return_spliced_Some find_keyword_references_not_None
        split: option.splits)
  show "references_KeywordCall h cache parent n d3 pos ctx \<noteq> Inl TypeError"
    by (auto simp: references_KeywordCall_def
        intro!: references_of_found_keyword_no_TypeError split: option.splits)
  show "references_Fixture h cache parent n d3 pos ctx \<noteq> Inl TypeError"
    by (auto simp: references_Fixture_def
        intro!: references_of_found_keyword_no_TypeError split: option.splits)
  show "references_Template_or_TestTemplate h cache parent n d3 pos ctx \<noteq> Inl TypeError"
    by (auto simp: references_Template_or_TestTemplate_def
        intro!: return_spliced_Some find_keyword_references_not_None
        split: option.splits)
qed

theorem absent_prerequisites_witness:
  "get_workspace_folder example_workspace (uri other_document) = None
   \<and> find_keyword_references example_helpers empty_cache example_workspace other_document
       (user_keyword ''KwA'' ''/ws/a.resource'') = Some []
   \<and> find_variable_references example_helpers empty_cache example_workspace other_document
       (example_variable 2) = Some []
   \<and> get_workspace_folder example_workspace (uri example_document) = Some ''/ws''
   \<and> get_namespace empty_cache example_document = None
   \<and> find_keyword_references example_helpers empty_cache example_workspace example_document
       (user_keyword ''KwA'' ''/ws/a.resource'') = None
   \<and> find_variable_references example_helpers empty_cache example_workspace example_document
       (example_variable 2) = None
   \<and> references_KeywordName example_helpers empty_cache example_workspace keyword_name_node
       example_document (9, 0) \<lparr>include_declaration = True\<rparr> = Inr None
   \<and> references_KeywordCall example_helpers empty_cache example_workspace keyword_name_node
       example_document (9, 0) \<lparr>include_declaration = True\<rparr> = Inr None
   \<and> references_Fixture example_helpers empty_cache example_workspace keyword_name_node
       example_document (9, 0) \<lparr>include_declaration = True\<rparr> = Inr None
   \<and> references_Template_or_TestTemplate example_helpers empty_cache example_workspace
       keyword_name_node example_document (9, 0) \<lparr>include_declaration = True\<rparr> = Inr None"
proof -
  have h1: "get_workspace_folder example_workspace (uri other_document) = None"
    by code_simp
  have h2: "get_workspace_folder example_workspace (uri example_document) = Some ''/ws''"
    by code_simp
  have h3: "get_namespace empty_cache example_document = None"
    by code_simp
  note t = absent_prerequisites
      [where parent = example_workspace and ?d1.0 = other_document and h = example_helpers
         and cache = empty_cache and kw_doc = "user_keyword ''KwA'' ''/ws/a.resource''"
         and variable = "example_variable 2" and ?d2.0 = example_document and folder = "''/ws''"
         and n = keyword_name_node and pos = "(9, 0)"
         and ctx = "\<lparr>include_declaration = True\<rparr>"]
  from t h1 have c1: "find_keyword_references example_helpers empty_cache example_workspace other_document
       (user_keyword ''KwA'' ''/ws/a.resource'') = Some []
   \<and> find_variable_references example_helpers empty_cache example_workspace other_document
       (example_variable 2) = Some []"
    by blast
  from t h2 h3 have c2: "find_keyword_references example_helpers empty_cache example_workspace example_document
       (user_keyword ''KwA'' ''/ws/a.resource'') = None
   \<and> find_variable_references example_helpers empty_cache example_workspace example_document
       (example_variable 2) = None
   \<and> references_KeywordName example_helpers empty_cache example_workspace keyword_name_node
       example_document (9, 0) \<lparr>include_declaration = True\<rparr> = Inr None
   \<and> references_KeywordCall example_helpers empty_cache example_workspace keyword_name_node
       example_document (9, 0) \<lparr>include_declaration = True\<rparr> = Inr None
   \<and> references_Fixture example_helpers empty_cache example_workspace keyword_name_node
       example_document (9, 0) \<lparr>include_declaration = True\<rparr> = Inr None
   \<and> references_Template_or_TestTemplate example_helpers empty_cache example_workspace
       keyword_name_node example_document (9, 0) \<lparr>include_declaration = True\<rparr> = Inr None"
    by blast
  from h1 h2 h3 c1 c2 show ?thesis by blast
qed

text \<open>
  With a namespace at hand the handlers do splice: the declaration, then the uses.
\<close>

lemma handlers_with_namespace:
  "references_KeywordName example_helpers example_cache example_workspace keyword_name_node
       example_document (9, 0) \<lparr>include_declaration = True\<rparr>
     = Inr (Some [Location ''file:///ws/a.resource'' ((9, 0), 9, 3),
                  Location ''file:///ws/t.robot'' ((2, 4), 2, 7),
                  Location ''file:///ws/t.robot'' ((6, 4), 6, 8)])
   \<and> references_KeywordCall example_helpers example_cache example_workspace (example_model ! 1)
       example_document (2, 4) \<lparr>include_declaration = False\<rparr>
     = Inr (Some [Location ''file:///ws/t.robot'' ((2, 4), 2, 7),
                  Location ''file:///ws/t.robot'' ((6, 4), 6, 8)])"
  by code_simp


end
